theory Spec2Isabelle
  imports Main
begin

section \<open>JavaScript strings and the built-ins the plugin calls\<close>

text \<open>
  A JavaScript string is the list of its UTF-16 code units; a code unit is a natural
  number below 65536. \<open>js\<close> turns an ASCII literal into such a list. A value of type
  \<open>string | undefined\<close> is a \<open>jsstring option\<close>; \<open>truthy\<close> is JavaScript's
  truthiness test on it (undefined and the empty string are falsy).
\<close>

type_synonym jsstring = "nat list"

definition js :: "string \<Rightarrow> jsstring" where
  "js s = map of_char s"

definition truthy :: "jsstring option \<Rightarrow> bool" where
  "truthy v = (case v of None \<Rightarrow> False | Some s \<Rightarrow> s \<noteq> [])"

text \<open>
  The errors of the model: \<open>URIError\<close> is what \<open>decodeURIComponent\<close> throws,
  \<open>TypeError\<close> a property read on \<open>undefined\<close>, \<open>ApiError\<close> a rejected request of the
  document service or of the responder's HTTP endpoint, with its message.
\<close>

datatype error = URIError | TypeError | ApiError jsstring

text \<open>
  White space as \<open>String.prototype.trim\<close> and the regular expression class \<open>\s\<close>
  see it: the WhiteSpace and LineTerminator code points of ECMAScript.
\<close>

definition is_ws :: "nat \<Rightarrow> bool" where
  "is_ws c = (c = 9 \<or> c = 10 \<or> c = 11 \<or> c = 12 \<or> c = 13 \<or> c = 32 \<or> c = 160 \<or>
     c = 5760 \<or> (8192 \<le> c \<and> c \<le> 8202) \<or> c = 8232 \<or> c = 8233 \<or> c = 8239 \<or>
     c = 8287 \<or> c = 12288 \<or> c = 65279)"

definition trim :: "jsstring \<Rightarrow> jsstring" where
  "trim s = rev (dropWhile is_ws (rev (dropWhile is_ws s)))"

text \<open>The class \<open>[a-f0-9]\<close> under the flag \<open>i\<close>, and the value of a hexadecimal digit.\<close>

definition is_hex :: "nat \<Rightarrow> bool" where
  "is_hex c = ((48 \<le> c \<and> c \<le> 57) \<or> (97 \<le> c \<and> c \<le> 102) \<or> (65 \<le> c \<and> c \<le> 70))"

definition hex_val :: "nat \<Rightarrow> nat" where
  "hex_val c = (if c \<le> 57 then c - 48 else if c \<le> 70 then c - 55 else c - 87)"

subsection \<open>decodeURIComponent\<close>

text \<open>
  The Decode operation of ECMAScript with an empty set of preserved escapes. A code unit
  other than \<open>%\<close> (37) is copied. \<open>%\<close> must be followed by two hexadecimal digits, which
  give a byte; a byte below 128 is the code unit itself; a byte with two to four leading
  one bits starts a UTF-8 sequence whose further bytes must each be escaped too, and
  the bytes must be the UTF-8 encoding of a code point, which is appended in UTF-16.
  Everything else throws URIError: the result \<open>None\<close>.
\<close>

definition lead_ones :: "nat \<Rightarrow> nat" where
  "lead_ones b = (if b < 128 then 0 else if b < 192 then 1 else if b < 224 then 2
     else if b < 240 then 3 else if b < 248 then 4 else 5)"

fun take_continuation :: "nat \<Rightarrow> jsstring \<Rightarrow> (nat list \<times> jsstring) option" where
  "take_continuation 0 s = Some ([], s)"
| "take_continuation (Suc j) (p # h1 # h2 # s) =
     (if p = 37 \<and> is_hex h1 \<and> is_hex h2
      then (case take_continuation j s of
              None \<Rightarrow> None
            | Some (bs, r) \<Rightarrow> Some ((hex_val h1 * 16 + hex_val h2) # bs, r))
      else None)"
| "take_continuation (Suc j) s = None"

definition is_cont :: "nat \<Rightarrow> bool" where
  "is_cont b = (128 \<le> b \<and> b \<le> 191)"

definition utf8_code_point :: "nat list \<Rightarrow> nat option" where
  "utf8_code_point octets =
     (case octets of
        [b0, b1] \<Rightarrow>
          if 194 \<le> b0 \<and> b0 \<le> 223 \<and> is_cont b1
          then Some ((b0 - 192) * 64 + (b1 - 128)) else None
      | [b0, b1, b2] \<Rightarrow>
          if 224 \<le> b0 \<and> b0 \<le> 239
             \<and> (if b0 = 224 then 160 else 128) \<le> b1
             \<and> b1 \<le> (if b0 = 237 then 159 else 191) \<and> is_cont b2
          then Some ((b0 - 224) * 4096 + (b1 - 128) * 64 + (b2 - 128)) else None
      | [b0, b1, b2, b3] \<Rightarrow>
          if 240 \<le> b0 \<and> b0 \<le> 244
             \<and> (if b0 = 240 then 144 else 128) \<le> b1
             \<and> b1 \<le> (if b0 = 244 then 143 else 191) \<and> is_cont b2 \<and> is_cont b3
          then Some ((b0 - 240) * 262144 + (b1 - 128) * 4096 + (b2 - 128) * 64 + (b3 - 128))
          else None
      | _ \<Rightarrow> None)"

definition utf16_encode :: "nat \<Rightarrow> jsstring" where
  "utf16_encode v = (if v < 65536 then [v]
     else [55296 + (v - 65536) div 1024, 56320 + (v - 65536) mod 1024])"

function decodeURIComponent :: "jsstring \<Rightarrow> jsstring option" where
  "decodeURIComponent [] = Some []"
| "decodeURIComponent (c # s) =
     (if c \<noteq> 37 then map_option ((#) c) (decodeURIComponent s)
      else (case s of
              h1 # h2 # rest \<Rightarrow>
                if is_hex h1 \<and> is_hex h2
                then (let b = hex_val h1 * 16 + hex_val h2; n = lead_ones b in
                      if n = 0 then map_option ((#) b) (decodeURIComponent rest)
                      else if n = 1 \<or> n > 4 then None
                      else (case take_continuation (n - 1) rest of
                              None \<Rightarrow> None
                            | Some (bs, rest') \<Rightarrow>
                                (case utf8_code_point (b # bs) of
                                   None \<Rightarrow> None
                                 | Some v \<Rightarrow>
                                     map_option ((@) (utf16_encode v))
                                       (decodeURIComponent rest'))))
                else None
            | _ \<Rightarrow> None))"
  by pat_completeness auto

termination
proof -
  have shorter: "take_continuation j s = Some (bs, r) \<Longrightarrow> length r \<le> length s"
    for j s bs r
    by (induction j s arbitrary: bs r rule: take_continuation.induct)
       (fastforce split: if_splits option.splits)+
  show ?thesis
    by (relation "measure length") (auto dest: shorter)
qed

subsection \<open>The two regular expressions of extractFromUrl\<close>

text \<open>
  \<open>String.prototype.match\<close> without the flag \<open>g\<close> returns the leftmost match: the
  pattern is tried at every start position from the left. Both patterns are sequences
  of fixed length, so trying one position is \<open>matches_prefix\<close>.
\<close>

datatype char_class = Hex | Dash

fun in_class :: "char_class \<Rightarrow> nat \<Rightarrow> bool" where
  "in_class Hex c = is_hex c"
| "in_class Dash c = (c = 45)"

fun matches_prefix :: "char_class list \<Rightarrow> jsstring \<Rightarrow> bool" where
  "matches_prefix [] s = True"
| "matches_prefix (k # ks) [] = False"
| "matches_prefix (k # ks) (c # cs) = (in_class k c \<and> matches_prefix ks cs)"

definition hex32_pattern :: "char_class list" where
  "hex32_pattern = replicate 32 Hex"

definition uuid_pattern :: "char_class list" where
  "uuid_pattern = replicate 8 Hex @ [Dash] @ replicate 4 Hex @ [Dash] @ replicate 4 Hex
     @ [Dash] @ replicate 4 Hex @ [Dash] @ replicate 12 Hex"

text \<open>\<open>/([a-f0-9]{32})\s*$/i\<close>: 32 hexadecimal digits, then white space up to the end.\<close>

fun match_trailing_hex32 :: "jsstring \<Rightarrow> jsstring option" where
  "match_trailing_hex32 [] = None"
| "match_trailing_hex32 (c # cs) =
     (if matches_prefix hex32_pattern (c # cs) \<and> list_all is_ws (drop 32 (c # cs))
      then Some (take 32 (c # cs))
      else match_trailing_hex32 cs)"

text \<open>\<open>/([a-f0-9]{8}-[a-f0-9]{4}-[a-f0-9]{4}-[a-f0-9]{4}-[a-f0-9]{12})/i\<close>.\<close>

fun match_uuid :: "jsstring \<Rightarrow> jsstring option" where
  "match_uuid [] = None"
| "match_uuid (c # cs) =
     (if matches_prefix uuid_pattern (c # cs)
      then Some (take 36 (c # cs))
      else match_uuid cs)"

section \<open>Blocks and the link extraction of the index page\<close>

text \<open>
  A rich-text run, with the fields the plugin reads: \<open>plain_text\<close>,
  \<open>text?.link?.url\<close> (here \<open>link_url\<close>) and \<open>href\<close>.
\<close>

record rich_text =
  plain_text :: jsstring
  link_url :: "jsstring option"
  href :: "jsstring option"

text \<open>
  A block of the document service is an untyped object in the source. The plugin reads
  \<open>block.id\<close>, \<open>block.type\<close>, \<open>block[block.type]?.rich_text\<close> (here
  \<open>block_rich_text\<close>; \<open>None\<close> when the payload or its rich text is missing) and
  \<open>block.link_to_page?.page_id\<close> (here \<open>link_to_page_id\<close>).
\<close>

record block =
  block_id :: jsstring
  block_type :: jsstring
  block_rich_text :: "rich_text list option"
  link_to_page_id :: "jsstring option"

text \<open>\<open>if (!pageIds.includes(x)) pageIds.push(x)\<close>\<close>

definition push_unique :: "jsstring \<Rightarrow> jsstring list \<Rightarrow> jsstring list" where
  "push_unique x pageIds = (if x \<in> set pageIds then pageIds else pageIds @ [x])"

text \<open>The template that groups 32 digits as 8-4-4-4-12 with \<open>slice\<close>.\<close>

definition format_uuid :: "jsstring \<Rightarrow> jsstring" where
  "format_uuid i = take 8 i @ [45] @ take 4 (drop 8 i) @ [45] @ take 4 (drop 12 i) @ [45]
     @ take 4 (drop 16 i) @ [45] @ drop 20 i"

definition extractFromUrl :: "jsstring \<Rightarrow> jsstring list \<Rightarrow> error + jsstring list" where
  "extractFromUrl url pageIds =
     (case decodeURIComponent url of
        None \<Rightarrow> Inl URIError
      | Some decodedUrl \<Rightarrow>
          (let pageIds1 = (case match_trailing_hex32 decodedUrl of
                             None \<Rightarrow> pageIds
                           | Some i \<Rightarrow> push_unique (format_uuid i) pageIds);
               pageIds2 = (case match_uuid decodedUrl of
                             None \<Rightarrow> pageIds1
                           | Some u \<Rightarrow> push_unique u pageIds1)
           in Inr pageIds2))"

text \<open>\<open>if (v) extractFromUrl(v)\<close> for an optional string \<open>v\<close>.\<close>

definition extractFromOptUrl :: "jsstring option \<Rightarrow> jsstring list \<Rightarrow> error + jsstring list" where
  "extractFromOptUrl v pageIds =
     (case v of
        None \<Rightarrow> Inr pageIds
      | Some url \<Rightarrow> if url = [] then Inr pageIds else extractFromUrl url pageIds)"

fun processRichText :: "rich_text list \<Rightarrow> jsstring list \<Rightarrow> error + jsstring list" where
  "processRichText [] pageIds = Inr pageIds"
| "processRichText (rt # rts) pageIds =
     (case extractFromOptUrl (link_url rt) pageIds of
        Inl e \<Rightarrow> Inl e
      | Inr pageIds1 \<Rightarrow>
          (case extractFromOptUrl (href rt) pageIds1 of
             Inl e \<Rightarrow> Inl e
           | Inr pageIds2 \<Rightarrow> processRichText rts pageIds2))"

fun extractPageLinks_loop :: "block list \<Rightarrow> jsstring list \<Rightarrow> error + jsstring list" where
  "extractPageLinks_loop [] pageIds = Inr pageIds"
| "extractPageLinks_loop (b # bs) pageIds =
     (if block_type b = js ''child_page''
      then extractPageLinks_loop bs (push_unique (block_id b) pageIds)
      else if block_type b = js ''child_database''
      then extractPageLinks_loop bs pageIds
      else if block_type b = js ''link_to_page''
      then extractPageLinks_loop bs
             (case link_to_page_id b of
                None \<Rightarrow> pageIds
              | Some linkedId \<Rightarrow> if linkedId = [] then pageIds else push_unique linkedId pageIds)
      else (case block_rich_text b of
              None \<Rightarrow> extractPageLinks_loop bs pageIds
            | Some rts \<Rightarrow>
                (case processRichText rts pageIds of
                   Inl e \<Rightarrow> Inl e
                 | Inr pageIds1 \<Rightarrow> extractPageLinks_loop bs pageIds1)))"

definition extractPageLinks :: "block list \<Rightarrow> error + jsstring list" where
  "extractPageLinks blocks = extractPageLinks_loop blocks []"

subsection \<open>What the specification says link extraction returns\<close>

text \<open>
  The specification's words, as definitions of their own: the hyperlinks a block offers
  for scanning, the identifiers one hyperlink contributes, the identifiers one block
  contributes, and deduplication that keeps the first occurrence in insertion order.
\<close>

definition opt_url :: "jsstring option \<Rightarrow> jsstring list" where
  "opt_url v = (case v of None \<Rightarrow> [] | Some url \<Rightarrow> if url = [] then [] else [url])"

definition run_urls :: "rich_text \<Rightarrow> jsstring list" where
  "run_urls rt = opt_url (link_url rt) @ opt_url (href rt)"

definition block_urls :: "block \<Rightarrow> jsstring list" where
  "block_urls b =
     (if block_type b = js ''child_page'' \<or> block_type b = js ''child_database''
         \<or> block_type b = js ''link_to_page''
      then []
      else (case block_rich_text b of None \<Rightarrow> [] | Some rts \<Rightarrow> concat (map run_urls rts)))"

definition url_ids :: "jsstring \<Rightarrow> jsstring list" where
  "url_ids url =
     (case decodeURIComponent url of
        None \<Rightarrow> []
      | Some d \<Rightarrow>
          (case match_trailing_hex32 d of None \<Rightarrow> [] | Some i \<Rightarrow> [format_uuid i])
          @ (case match_uuid d of None \<Rightarrow> [] | Some u \<Rightarrow> [u]))"

definition block_links :: "block \<Rightarrow> jsstring list" where
  "block_links b =
     (if block_type b = js ''child_page'' then [block_id b]
      else if block_type b = js ''child_database'' then []
      else if block_type b = js ''link_to_page''
      then opt_url (link_to_page_id b)
      else concat (map url_ids (block_urls b)))"

fun dedup_first :: "'a list \<Rightarrow> 'a list" where
  "dedup_first [] = []"
| "dedup_first (x # xs) = x # filter (\<lambda>y. y \<noteq> x) (dedup_first xs)"

definition urls_decode :: "block list \<Rightarrow> bool" where
  "urls_decode bs = list_all (\<lambda>u. decodeURIComponent u \<noteq> None) (concat (map block_urls bs))"

definition push_all :: "jsstring list \<Rightarrow> jsstring list \<Rightarrow> jsstring list" where
  "push_all pageIds xs = foldl (\<lambda>a x. push_unique x a) pageIds xs"

section \<open>The document service, the responder endpoint and the environment\<close>

text \<open>
  A comment, with the fields the plugin reads. \<open>created_time\<close> is the number
  \<open>new Date(created_time).getTime()\<close> yields for the ISO-8601 time stamp of the
  service: milliseconds since the epoch.
\<close>

record notion_comment =
  comment_id :: jsstring
  discussion_id :: jsstring
  created_time :: int
  comment_rich_text :: "rich_text list"
  created_by_id :: jsstring

text \<open>One page of a paginated listing: \<open>results\<close>, \<open>has_more\<close>, \<open>next_cursor\<close>.\<close>

record 'a listing =
  results :: "'a list"
  has_more :: bool
  next_cursor :: "jsstring option"

text \<open>A property of a retrieved page: its \<open>type\<close> and, when present, its \<open>title\<close> runs.\<close>

record page_property =
  property_type :: jsstring
  property_title :: "rich_text list option"

text \<open>
  Everything outside the plugin, as it answers during one poll cycle: the four
  requests to the document service (\<open>Inl\<close> when the client throws), the chat
  completion request (URL, API key, model, system prompt, prompt; \<open>Inl\<close> when
  \<open>fetch\<close> rejects, the status is not ok or the body is not JSON; \<open>Inr\<close> the text
  \<open>data?.choices?.[0]?.message?.content || ""\<close>), and the process environment.
\<close>

record world =
  comments_list :: "jsstring \<Rightarrow> jsstring option \<Rightarrow> error + notion_comment listing"
  blocks_children_list :: "jsstring \<Rightarrow> jsstring option \<Rightarrow> error + block listing"
  comments_create :: "jsstring \<Rightarrow> jsstring \<Rightarrow> error + unit"
  pages_retrieve :: "jsstring \<Rightarrow> error + page_property list"
  chat_completions :: "jsstring \<Rightarrow> jsstring \<Rightarrow> jsstring \<Rightarrow> jsstring \<Rightarrow> jsstring \<Rightarrow> error + jsstring"
  process_env :: "jsstring \<Rightarrow> jsstring option"

record plugin_config =
  enabled :: bool
  indexPage :: "jsstring option"
  watchedPages :: "jsstring list"
  aiBaseUrl :: "jsstring option"
  aiApiKey :: "jsstring option"
  aiApiKeyEnv :: "jsstring option"
  aiModel :: "jsstring option"
  useGatewayChatCompletions :: "bool option"
  gatewayBaseUrl :: "jsstring option"
  gatewayApiKey :: "jsstring option"
  gatewayApiKeyEnv :: "jsstring option"
  systemPrompt :: "jsstring option"

record ProcessedState =
  lastPollTime :: int
  processedComments :: "jsstring \<rightharpoonup> jsstring list"

subsection \<open>Configuration helpers and the state file\<close>

definition getEnv :: "world \<Rightarrow> jsstring option \<Rightarrow> jsstring" where
  "getEnv w name =
     (case name of
        None \<Rightarrow> []
      | Some n \<Rightarrow> if n = [] then [] else (case process_env w n of None \<Rightarrow> [] | Some v \<Rightarrow> v))"

fun firstNonEmpty :: "jsstring option list \<Rightarrow> jsstring" where
  "firstNonEmpty [] = []"
| "firstNonEmpty (None # vs) = firstNonEmpty vs"
| "firstNonEmpty (Some v # vs) = (if trim v \<noteq> [] then trim v else firstNonEmpty vs)"

text \<open>
  The state file holds a state, or is absent or unreadable (\<open>None\<close>); \<open>loadState\<close>
  then starts fresh, and \<open>saveState\<close> overwrites the file.
\<close>

definition loadState :: "ProcessedState option \<Rightarrow> ProcessedState" where
  "loadState file =
     (case file of
        Some st \<Rightarrow> st
      | None \<Rightarrow> \<lparr>lastPollTime = 0, processedComments = Map.empty\<rparr>)"

definition saveState :: "ProcessedState \<Rightarrow> ProcessedState option" where
  "saveState st = Some st"

definition plain_texts :: "rich_text list \<Rightarrow> jsstring" where
  "plain_texts rts = concat (map plain_text rts)"

definition extractTextFromComment :: "notion_comment \<Rightarrow> jsstring" where
  "extractTextFromComment c = plain_texts (comment_rich_text c)"

definition extractBlockText :: "block \<Rightarrow> jsstring" where
  "extractBlockText b = (case block_rich_text b of None \<Rightarrow> [] | Some rts \<Rightarrow> plain_texts rts)"

text \<open>\<open>v || undefined\<close> for a string \<open>v\<close>.\<close>

definition or_undefined :: "jsstring \<Rightarrow> jsstring option" where
  "or_undefined v = (if v = [] then None else Some v)"

subsection \<open>The paginated fetchers\<close>

text \<open>
  The \<open>do ... while (cursor)\<close> loop inside \<open>try\<close>: each round appends the results and
  goes on while the answer has more and names a non-empty cursor. A request that throws
  ends the loop in the \<open>catch\<close>, which only logs; the function then returns what was
  accumulated. The service decides how long the loop runs, so the loop is a partial
  function: \<open>None\<close> when it never ends.
\<close>

partial_function (option) getCommentsForBlock_loop ::
  "world \<Rightarrow> jsstring \<Rightarrow> jsstring option \<Rightarrow> notion_comment list \<Rightarrow> notion_comment list option" where
  "getCommentsForBlock_loop w blockId cursor allComments =
     (case comments_list w blockId cursor of
        Inl e \<Rightarrow> Some allComments
      | Inr response \<Rightarrow>
          if truthy (if has_more response then next_cursor response else None)
          then getCommentsForBlock_loop w blockId
                 (if has_more response then next_cursor response else None)
                 (allComments @ results response)
          else Some (allComments @ results response))"

declare getCommentsForBlock_loop.simps [code]

definition getCommentsForBlock :: "world \<Rightarrow> jsstring \<Rightarrow> notion_comment list option" where
  "getCommentsForBlock w blockId = getCommentsForBlock_loop w blockId None []"

partial_function (option) getPageBlocks_loop ::
  "world \<Rightarrow> jsstring \<Rightarrow> jsstring option \<Rightarrow> block list \<Rightarrow> block list option" where
  "getPageBlocks_loop w pageId cursor allBlocks =
     (case blocks_children_list w pageId cursor of
        Inl e \<Rightarrow> Some allBlocks
      | Inr response \<Rightarrow>
          if truthy (if has_more response then next_cursor response else None)
          then getPageBlocks_loop w pageId
                 (if has_more response then next_cursor response else None)
                 (allBlocks @ results response)
          else Some (allBlocks @ results response))"

declare getPageBlocks_loop.simps [code]

definition getPageBlocks :: "world \<Rightarrow> jsstring \<Rightarrow> block list option" where
  "getPageBlocks w pageId = getPageBlocks_loop w pageId None []"

subsection \<open>The comment aggregator\<close>

record entry =
  comment :: notion_comment
  quote :: "jsstring option"

definition non_commentable :: "block \<Rightarrow> bool" where
  "non_commentable b = (block_type b = js ''child_page'' \<or> block_type b = js ''child_database''
     \<or> block_type b = js ''unsupported'')"

fun inline_comments_loop :: "world \<Rightarrow> block list \<Rightarrow> entry list \<Rightarrow> entry list option" where
  "inline_comments_loop w [] rs = Some rs"
| "inline_comments_loop w (b # bs) rs =
     (if non_commentable b then inline_comments_loop w bs rs
      else (case getCommentsForBlock w (block_id b) of
              None \<Rightarrow> None
            | Some blockComments \<Rightarrow>
                if blockComments \<noteq> []
                then inline_comments_loop w bs
                       (rs @ map (\<lambda>c. \<lparr>comment = c, quote = or_undefined (extractBlockText b)\<rparr>)
                               blockComments)
                else inline_comments_loop w bs rs))"

definition getAllCommentsForPage :: "world \<Rightarrow> jsstring \<Rightarrow> entry list option" where
  "getAllCommentsForPage w pageId =
     (case getCommentsForBlock w pageId of
        None \<Rightarrow> None
      | Some pageComments \<Rightarrow>
          (case getPageBlocks w pageId of
             None \<Rightarrow> None
           | Some blocks \<Rightarrow>
               inline_comments_loop w blocks
                 (map (\<lambda>c. \<lparr>comment = c, quote = None\<rparr>) pageComments)))"

definition replyToComment :: "world \<Rightarrow> jsstring \<Rightarrow> jsstring \<Rightarrow> bool" where
  "replyToComment w discussionId replyText =
     (case comments_create w discussionId replyText of Inl e \<Rightarrow> False | Inr u \<Rightarrow> True)"

definition getWatchedPagesFromIndex :: "world \<Rightarrow> jsstring \<Rightarrow> (error + jsstring list) option" where
  "getWatchedPagesFromIndex w indexPageId =
     (case getPageBlocks w indexPageId of
        None \<Rightarrow> None
      | Some blocks \<Rightarrow> if blocks = [] then Some (Inr []) else Some (extractPageLinks blocks))"

section \<open>The response dispatcher\<close>

text \<open>
  The string constants of the source that are not ASCII, as UTF-16 code units: the
  default system prompt, the four apologies (empty completion, gateway down with no
  external key, no key configured, responder failure) and the pieces of the four prompt
  templates (page with title, the text between title and quote, the text between quote
  and comment, the closing request, document with quote, the text between title and
  comment, document without quote).
\<close>

definition default_system_prompt :: jsstring where
  "default_system_prompt = [20320, 26159, 19968, 20010, 21451, 22909, 12289, 19987, 19994,
     30340, 32, 65, 73, 32, 21161, 25163, 12290, 29992, 25143, 22312, 32, 78, 111, 116, 105,
     111, 110, 32, 25991, 26723, 20013, 21457, 34920, 20102, 35780, 35770, 65292, 35831,
     29992, 31616, 27905, 30340, 20013, 25991, 22238, 22797, 12290, 19981, 35201, 20351,
     29992, 32, 77, 97, 114, 107, 100, 111, 119, 110, 32, 26684, 24335, 12290]"

definition apology_empty :: jsstring where
  "apology_empty = [25265, 27465, 65292, 25105, 26242, 26102, 26080, 27861, 22788, 29702,
     36825, 26465, 35780, 35770, 12290]"

definition apology_gateway :: jsstring where
  "apology_gateway = [25265, 27465, 65292, 65, 73, 32, 32593, 20851, 26242, 26102, 19981,
     21487, 29992, 65292, 35831, 31245, 21518, 20877, 35797, 12290]"

definition apology_unconfigured :: jsstring where
  "apology_unconfigured = [25265, 27465, 65292, 65, 73, 32, 22238, 22797, 21151, 33021,
     26410, 37197, 32622, 12290]"

definition apology_agent :: jsstring where
  "apology_agent = [25265, 27465, 65292, 22788, 29702, 35780, 35770, 26102, 36935, 21040,
     20102, 38382, 39064, 65292, 35831, 31245, 21518, 20877, 35797, 12290]"

definition tpl_page :: jsstring where
  "tpl_page = [29992, 25143, 22312, 32, 78, 111, 116, 105, 111, 110, 32, 39029, 38754, 12300]"

definition tpl_title_to_quote :: jsstring where
  "tpl_title_to_quote = [12301, 20013, 23545, 20197, 19979, 20869, 23481, 21010, 35789,
     35780, 35770, 65306, 10, 10, 24341, 29992, 20869, 23481, 65306, 12300]"

definition tpl_quote_to_comment :: jsstring where
  "tpl_quote_to_comment = [12301, 10, 10, 35780, 35770, 65306]"

definition tpl_request :: jsstring where
  "tpl_request = [10, 10, 35831, 22238, 22797, 36825, 26465, 35780, 35770, 12290]"

definition tpl_document_quote :: jsstring where
  "tpl_document_quote = [29992, 25143, 22312, 32, 78, 111, 116, 105, 111, 110, 32, 25991,
     26723, 20013, 23545, 20197, 19979, 20869, 23481, 21010, 35789, 35780, 35770, 65306,
     10, 10, 24341, 29992, 20869, 23481, 65306, 12300]"

definition tpl_title_to_comment :: jsstring where
  "tpl_title_to_comment = [12301, 20013, 21457, 34920, 20102, 35780, 35770, 65306]"

definition tpl_document :: jsstring where
  "tpl_document = [29992, 25143, 22312, 32, 78, 111, 116, 105, 111, 110, 32, 25991, 26723,
     20013, 21457, 34920, 20102, 35780, 35770, 65306]"

text \<open>\<open>v || d\<close> for an optional string \<open>v\<close>, and \<open>String.prototype.startsWith\<close>.\<close>

definition or_default :: "jsstring option \<Rightarrow> jsstring \<Rightarrow> jsstring" where
  "or_default v d = (case v of None \<Rightarrow> d | Some s \<Rightarrow> if s = [] then d else s)"

definition startsWith :: "jsstring \<Rightarrow> jsstring \<Rightarrow> bool" where
  "startsWith s p = (take (length p) s = p)"

text \<open>\<open>baseUrl.replace(/\/+$/, "")\<close>: the trailing slashes (47) are removed.\<close>

definition normalizeBaseUrl :: "jsstring \<Rightarrow> jsstring" where
  "normalizeBaseUrl baseUrl = rev (dropWhile (\<lambda>c. c = 47) (rev baseUrl))"

definition callChatCompletions ::
  "world \<Rightarrow> jsstring \<Rightarrow> jsstring \<Rightarrow> jsstring \<Rightarrow> jsstring \<Rightarrow> jsstring \<Rightarrow> error + jsstring" where
  "callChatCompletions w baseUrl apiKey model sysPrompt prompt =
     (case chat_completions w (normalizeBaseUrl baseUrl @ js ''/chat/completions'')
             apiKey model sysPrompt prompt of
        Inl e \<Rightarrow> Inl e
      | Inr text \<Rightarrow> Inr (if text = [] then apology_empty else text))"

definition callAI :: "world \<Rightarrow> plugin_config \<Rightarrow> jsstring \<Rightarrow> error + jsstring" where
  "callAI w config prompt =
     (let sysPrompt = or_default (systemPrompt config) default_system_prompt;
          useGateway = (useGatewayChatCompletions config \<noteq> Some False);
          gatewayModel = or_default (aiModel config) (js ''openclaw:friday'');
          externalModel =
            (if truthy (aiModel config)
                \<and> \<not> startsWith (or_default (aiModel config) []) (js ''openclaw:'')
             then or_default (aiModel config) []
             else js ''gpt-5.3-codex-xhigh'');
          gatewayUrl = or_default (gatewayBaseUrl config) (js ''http://127.0.0.1:18789/v1'');
          gatewayKey =
            firstNonEmpty [gatewayApiKey config, Some (getEnv w (gatewayApiKeyEnv config))];
          externalUrl = or_default (aiBaseUrl config) (js ''https://right.codes/codex/v1'');
          externalKey = firstNonEmpty [aiApiKey config, Some (getEnv w (aiApiKeyEnv config))];
          external =
            (if externalKey = [] then Inr apology_unconfigured
             else callChatCompletions w externalUrl externalKey externalModel sysPrompt prompt)
      in if useGateway
         then (case callChatCompletions w gatewayUrl gatewayKey gatewayModel sysPrompt prompt of
                 Inr text \<Rightarrow> Inr text
               | Inl e \<Rightarrow> if externalKey = [] then Inr apology_gateway else external)
         else external)"

definition build_prompt :: "jsstring \<Rightarrow> jsstring option \<Rightarrow> jsstring option \<Rightarrow> jsstring" where
  "build_prompt commentText pageTitle quoteText =
     (if truthy quoteText
      then (if truthy pageTitle
            then tpl_page @ or_default pageTitle [] @ tpl_title_to_quote
                 @ or_default quoteText [] @ tpl_quote_to_comment @ commentText @ tpl_request
            else tpl_document_quote @ or_default quoteText [] @ tpl_quote_to_comment
                 @ commentText @ tpl_request)
      else (if truthy pageTitle
            then tpl_page @ or_default pageTitle [] @ tpl_title_to_comment @ commentText
                 @ tpl_request
            else tpl_document @ commentText @ tpl_request))"

definition processCommentWithAgent ::
  "world \<Rightarrow> plugin_config \<Rightarrow> jsstring \<Rightarrow> jsstring option \<Rightarrow> jsstring option \<Rightarrow> jsstring" where
  "processCommentWithAgent w config commentText pageTitle quoteText =
     (case callAI w config (build_prompt commentText pageTitle quoteText) of
        Inr text \<Rightarrow> text
      | Inl e \<Rightarrow> apology_agent)"

definition getPageTitle :: "world \<Rightarrow> jsstring \<Rightarrow> jsstring option" where
  "getPageTitle w pageId =
     (case pages_retrieve w pageId of
        Inl e \<Rightarrow> None
      | Inr properties \<Rightarrow>
          (case find (\<lambda>p. property_type p = js ''title'') properties of
             None \<Rightarrow> None
           | Some titleProp \<Rightarrow>
               (case property_title titleProp of
                  None \<Rightarrow> None
                | Some runs \<Rightarrow> or_undefined (plain_texts runs))))"

section \<open>The thread resolver and the poll cycle\<close>

fun group_add ::
  "notion_comment \<Rightarrow> (jsstring \<times> notion_comment list) list
     \<Rightarrow> (jsstring \<times> notion_comment list) list" where
  "group_add c [] = [(discussion_id c, [c])]"
| "group_add c ((k, cs) # gs) =
     (if k = discussion_id c then (k, cs @ [c]) # gs else (k, cs) # group_add c gs)"

definition groupByDiscussion ::
  "notion_comment list \<Rightarrow> (jsstring \<times> notion_comment list) list" where
  "groupByDiscussion comments = foldl (\<lambda>groups c. group_add c groups) [] comments"

definition buildQuoteMap :: "entry list \<Rightarrow> (jsstring \<rightharpoonup> jsstring)" where
  "buildQuoteMap commentEntries =
     foldl (\<lambda>quoteMap e.
              (case quote e of
                 None \<Rightarrow> quoteMap
               | Some q \<Rightarrow> if q = [] then quoteMap
                           else quoteMap(discussion_id (comment e) \<mapsto> q)))
       Map.empty commentEntries"

text \<open>
  What the cycle does to the outside, in order: a call of the responder for a thread
  (tagged with the thread's discussion identifier, then the arguments of
  \<open>processCommentWithAgent\<close>) and a reply posted to a discussion, with its outcome.
\<close>

datatype event =
  Responder jsstring jsstring "jsstring option" "jsstring option"
| ReplyPost jsstring jsstring bool

text \<open>
  \<open>Array.prototype.sort\<close> is stable, and the comparator is the difference of the two
  times: the stable insertion sort \<open>sort_key\<close> by \<open>created_time\<close>.
\<close>

definition sortByTime :: "notion_comment list \<Rightarrow> notion_comment list" where
  "sortByTime threadComments = sort_key created_time threadComments"

definition latestComment :: "notion_comment list \<Rightarrow> notion_comment" where
  "latestComment threadComments = last (sortByTime threadComments)"

text \<open>
  The body of the loop over the threads of one page. It returns the new
  \<open>processedIds\<close> and the events, or the TypeError that reading a property of
  \<open>threadComments[threadComments.length - 1]\<close> raises on an empty thread.
\<close>

definition thread_step ::
  "world \<Rightarrow> plugin_config \<Rightarrow> jsstring option \<Rightarrow> jsstring \<Rightarrow> (jsstring \<rightharpoonup> jsstring)
     \<Rightarrow> jsstring \<Rightarrow> notion_comment list \<Rightarrow> jsstring list
     \<Rightarrow> error + (jsstring list \<times> event list)" where
  "thread_step w config integrationUserId pageId quoteMap discussionId threadComments processedIds =
     (if sortByTime threadComments = [] then Inl TypeError
      else
        (let latest = latestComment threadComments in
         if comment_id latest \<in> set processedIds then Inr (processedIds, [])
         else if truthy integrationUserId \<and> Some (created_by_id latest) = integrationUserId
         then Inr (processedIds @ [comment_id latest], [])
         else
           (let commentText = extractTextFromComment latest in
            if trim commentText = [] then Inr (processedIds @ [comment_id latest], [])
            else
              (let quoteText = quoteMap discussionId;
                   pageTitle = getPageTitle w pageId;
                   response = processCommentWithAgent w config commentText pageTitle quoteText;
                   success = replyToComment w discussionId response
               in Inr (if success then processedIds @ [comment_id latest] else processedIds,
                       [Responder discussionId commentText pageTitle quoteText,
                        ReplyPost discussionId response success])))))"

fun threads_loop ::
  "world \<Rightarrow> plugin_config \<Rightarrow> jsstring option \<Rightarrow> jsstring \<Rightarrow> (jsstring \<rightharpoonup> jsstring)
     \<Rightarrow> (jsstring \<times> notion_comment list) list \<Rightarrow> jsstring list \<Rightarrow> event list
     \<Rightarrow> jsstring list \<times> event list \<times> error option" where
  "threads_loop w config uid pageId quoteMap [] processedIds evs = (processedIds, evs, None)"
| "threads_loop w config uid pageId quoteMap ((discussionId, threadComments) # ds) processedIds evs =
     (case thread_step w config uid pageId quoteMap discussionId threadComments processedIds of
        Inl e \<Rightarrow> (processedIds, evs, Some e)
      | Inr (processedIds', evs') \<Rightarrow>
          threads_loop w config uid pageId quoteMap ds processedIds' (evs @ evs'))"

text \<open>
  One round of the loop over the watched pages, with its \<open>try\<close> and \<open>catch\<close>.
  \<open>processedIds\<close> is the array stored for the page when there is one, so what is pushed
  to it is in the state at once; a fresh array is stored only by the assignment that ends
  the \<open>try\<close> block, which an exception skips.
\<close>

definition page_step ::
  "world \<Rightarrow> plugin_config \<Rightarrow> jsstring option \<Rightarrow> jsstring \<Rightarrow> ProcessedState \<times> event list
     \<Rightarrow> (ProcessedState \<times> event list) option" where
  "page_step w config uid pageId acc =
     (case getAllCommentsForPage w pageId of
        None \<Rightarrow> None
      | Some commentEntries \<Rightarrow>
          (let st = fst acc;
               processedIds = (case processedComments st pageId of None \<Rightarrow> [] | Some ids \<Rightarrow> ids);
               quoteMap = buildQuoteMap commentEntries;
               discussions = groupByDiscussion (map comment commentEntries);
               r = threads_loop w config uid pageId quoteMap discussions processedIds []
           in Some
                (if snd (snd r) = None \<or> processedComments st pageId \<noteq> None
                 then st\<lparr>processedComments := (processedComments st)(pageId \<mapsto> fst r)\<rparr>
                 else st,
                 snd acc @ fst (snd r))))"

fun pages_loop ::
  "world \<Rightarrow> plugin_config \<Rightarrow> jsstring option \<Rightarrow> jsstring list \<Rightarrow> ProcessedState \<times> event list
     \<Rightarrow> (ProcessedState \<times> event list) option" where
  "pages_loop w config uid [] acc = Some acc"
| "pages_loop w config uid (pageId # pageIds) acc =
     (case page_step w config uid pageId acc of
        None \<Rightarrow> None
      | Some acc' \<Rightarrow> pages_loop w config uid pageIds acc')"

text \<open>
  A poll cycle, given the clock reading \<open>now\<close> of \<open>Date.now()\<close> at its end and the
  content of the state file. The result is \<open>None\<close> when a fetch never ends, \<open>Inl\<close> when
  the cycle throws (the caller logs it), and else the state file after the cycle and
  the events of the cycle.
\<close>

definition pollNotionComments ::
  "world \<Rightarrow> plugin_config \<Rightarrow> jsstring option \<Rightarrow> int \<Rightarrow> ProcessedState option
     \<Rightarrow> (error + ProcessedState option \<times> event list) option" where
  "pollNotionComments w config integrationUserId now file =
     (if \<not> enabled config then Some (Inr (file, []))
      else
        (case (if truthy (indexPage config)
               then getWatchedPagesFromIndex w (or_default (indexPage config) [])
               else Some (Inr [])) of
           None \<Rightarrow> None
         | Some (Inl e) \<Rightarrow> Some (Inl e)
         | Some (Inr fromIndex) \<Rightarrow>
             (let watched = (if fromIndex = [] \<and> watchedPages config \<noteq> []
                             then watchedPages config else fromIndex)
              in if watched = [] then Some (Inr (file, []))
                 else (case pages_loop w config integrationUserId watched (loadState file, []) of
                         None \<Rightarrow> None
                       | Some (st, evs) \<Rightarrow>
                           Some (Inr (saveState (st\<lparr>lastPollTime := now\<rparr>), evs))))))"

section \<open>Example data\<close>

definition mk_comment :: "string \<Rightarrow> string \<Rightarrow> int \<Rightarrow> string \<Rightarrow> string \<Rightarrow> notion_comment" where
  "mk_comment i d t txt author =
     \<lparr>comment_id = js i, discussion_id = js d, created_time = t,
      comment_rich_text = [\<lparr>plain_text = js txt, link_url = None, href = None\<rparr>],
      created_by_id = js author\<rparr>"

definition single_page :: "'a list \<Rightarrow> 'a listing" where
  "single_page xs = \<lparr>results = xs, has_more = False, next_cursor = None\<rparr>"

definition demo_config :: plugin_config where
  "demo_config = \<lparr>enabled = True, indexPage = None, watchedPages = [js ''P''],
     aiBaseUrl = None, aiApiKey = None, aiApiKeyEnv = None, aiModel = None,
     useGatewayChatCompletions = None, gatewayBaseUrl = None, gatewayApiKey = None,
     gatewayApiKeyEnv = None, systemPrompt = None\<rparr>"

text \<open>
  A service with no comments and no blocks, where a reply can be posted, no page has a
  title and the responder answers \<open>ok\<close>.
\<close>

definition demo_world :: world where
  "demo_world =
     \<lparr>comments_list = (\<lambda>b cursor. Inr (single_page [])),
      blocks_children_list = (\<lambda>b cursor. Inr (single_page [])),
      comments_create = (\<lambda>d t. Inr ()),
      pages_retrieve = (\<lambda>p. Inl (ApiError (js ''no title''))),
      chat_completions = (\<lambda>url key model sys prompt. Inr (js ''ok'')),
      process_env = (\<lambda>n. None)\<rparr>"

definition down :: error where
  "down = ApiError (js ''down'')"

text \<open>
  The service with one page-level comment on page \<open>P\<close>; the same where posting a reply
  fails; and the same where the responder endpoint is down.
\<close>

definition one_comment_world :: world where
  "one_comment_world = demo_world\<lparr>comments_list := (\<lambda>b cursor.
      if b = js ''P'' then Inr (single_page [mk_comment ''c1'' ''d1'' 1000 ''hi'' ''u1''])
      else Inr (single_page []))\<rparr>"

definition failing_post_world :: world where
  "failing_post_world = one_comment_world\<lparr>comments_create := (\<lambda>d t. Inl down)\<rparr>"


text \<open>
  Blocks of an index page: a rich-text run that is a hyperlink (the service gives the
  URL both as \<open>text.link.url\<close> and as \<open>href\<close>), a paragraph, a child page and a link to
  a page.
\<close>

definition link_run :: "jsstring \<Rightarrow> rich_text" where
  "link_run url = \<lparr>plain_text = js ''link'', link_url = Some url, href = Some url\<rparr>"

definition paragraph_block :: "jsstring \<Rightarrow> rich_text list \<Rightarrow> block" where
  "paragraph_block i rts = \<lparr>block_id = i, block_type = js ''paragraph'', block_rich_text = Some rts,
     link_to_page_id = None\<rparr>"

definition child_page_block :: "jsstring \<Rightarrow> block" where
  "child_page_block i = \<lparr>block_id = i, block_type = js ''child_page'', block_rich_text = None,
     link_to_page_id = None\<rparr>"

definition link_to_page_block :: "jsstring \<Rightarrow> jsstring \<Rightarrow> block" where
  "link_to_page_block i p = \<lparr>block_id = i, block_type = js ''link_to_page'', block_rich_text = None,
     link_to_page_id = Some p\<rparr>"

text \<open>
  Worlds and data of the examples: the responder endpoint down with an external key
  configured; a thread with a tie of creation times; a listing that fails in its second
  round; a page with a paragraph and an image that both carry a comment; and a page
  whose top-level comments cannot be fetched.
\<close>

definition outage_world :: world where
  "outage_world = demo_world\<lparr>chat_completions := (\<lambda>url key model sys prompt. Inl down)\<rparr>"

definition fallback_config :: plugin_config where
  "fallback_config = demo_config\<lparr>aiApiKey := Some (js ''k'')\<rparr>"

definition demo_comments :: "notion_comment list" where
  "demo_comments =
     [mk_comment ''c1'' ''d1'' 1000 ''hi'' ''u1'', mk_comment ''c2'' ''d2'' 500 ''  '' ''u2'',
      mk_comment ''c3'' ''d1'' 2000 ''more'' ''u1'', mk_comment ''c4'' ''d1'' 2000 ''tie'' ''u1'']"

definition partial_world :: world where
  "partial_world = demo_world\<lparr>comments_list := (\<lambda>b cursor.
      if b = js ''P'' \<and> cursor = None
      then Inr \<lparr>results = [mk_comment ''c1'' ''d1'' 1000 ''hi'' ''u1''], has_more = True,
                next_cursor = Some (js ''k'')\<rparr>
      else if b = js ''P'' then Inl down
      else Inr (single_page []))\<rparr>"

definition text_block :: block where
  "text_block = \<lparr>block_id = js ''b1'', block_type = js ''paragraph'',
     block_rich_text = Some [\<lparr>plain_text = js ''Revenue grew '', link_url = None, href = None\<rparr>,
                             \<lparr>plain_text = js ''12%'', link_url = None, href = None\<rparr>],
     link_to_page_id = None\<rparr>"

definition image_block :: block where
  "image_block = \<lparr>block_id = js ''b2'', block_type = js ''image'', block_rich_text = None,
     link_to_page_id = None\<rparr>"

definition quote_world :: world where
  "quote_world = demo_world\<lparr>
     comments_list := (\<lambda>b cursor.
        if b = js ''P'' then Inr (single_page [mk_comment ''c1'' ''d1'' 1000 ''hi'' ''u1''])
        else if b = js ''b1'' then Inr (single_page [mk_comment ''c2'' ''d2'' 2000 ''hi'' ''u1''])
        else if b = js ''b2'' then Inr (single_page [mk_comment ''c3'' ''d3'' 3000 ''hi'' ''u1''])
        else Inr (single_page [])),
     blocks_children_list := (\<lambda>b cursor. Inr (single_page [text_block, image_block]))\<rparr>"

definition inline_only_world :: world where
  "inline_only_world = demo_world\<lparr>
     comments_list := (\<lambda>b cursor.
        if b = js ''P'' then Inl down
        else if b = js ''b1'' then Inr (single_page [mk_comment ''c2'' ''d2'' 2000 ''hi'' ''u1''])
        else Inr (single_page [])),
     blocks_children_list := (\<lambda>b cursor. Inr (single_page [text_block]))\<rparr>"

text \<open>
  A configuration that names page \<open>P\<close> twice; a service whose page \<open>P\<close> carries the
  comments \<open>demo_comments\<close>; and an index page \<open>I\<close> with a child page \<open>P\<close> and a
  paragraph whose hyperlink holds a percent-escape that is not UTF-8, with the
  configuration that names \<open>I\<close> as index page and keeps \<open>P\<close> as fallback.
\<close>

definition twice_config :: plugin_config where
  "twice_config = demo_config\<lparr>watchedPages := [js ''P'', js ''P'']\<rparr>"

definition thread_world :: world where
  "thread_world = demo_world\<lparr>comments_list := (\<lambda>b cursor.
      if b = js ''P'' then Inr (single_page demo_comments) else Inr (single_page []))\<rparr>"

definition index_config :: plugin_config where
  "index_config = demo_config\<lparr>indexPage := Some (js ''I'')\<rparr>"

definition index_world :: world where
  "index_world = one_comment_world\<lparr>blocks_children_list := (\<lambda>b cursor.
      if b = js ''I''
      then Inr (single_page [child_page_block (js ''P''),
                             paragraph_block (js ''b2'') [link_run (js ''https://example.com/caf%E9'')]])
      else Inr (single_page []))\<rparr>"

section \<open>Notions of the specification used in the statements\<close>

text \<open>
  A listing that answers \<open>rs\<close>, each answer naming the cursor of the next request, and
  then fails: the rounds of pagination that succeed before an error.
\<close>

fun follows ::
  "(jsstring option \<Rightarrow> error + 'a listing) \<Rightarrow> jsstring option \<Rightarrow> 'a listing list \<Rightarrow> bool" where
  "follows f cursor [] = isl (f cursor)"
| "follows f cursor (r # rs) =
     (f cursor = Inr r \<and> has_more r \<and> truthy (next_cursor r) \<and> follows f (next_cursor r) rs)"

text \<open>
  The latest comment of a thread is the bot's own when a bot identifier is configured
  and is the comment's author; it is answerable when it is neither processed, nor the
  bot's own, nor blank. \<open>answer_events\<close> are the events of one answer attempt.
\<close>

definition bot_authored :: "jsstring option \<Rightarrow> notion_comment \<Rightarrow> bool" where
  "bot_authored integrationUserId c =
     (truthy integrationUserId \<and> Some (created_by_id c) = integrationUserId)"

definition answerable :: "jsstring option \<Rightarrow> jsstring list \<Rightarrow> notion_comment \<Rightarrow> bool" where
  "answerable integrationUserId processedIds c =
     (comment_id c \<notin> set processedIds \<and> \<not> bot_authored integrationUserId c
      \<and> trim (extractTextFromComment c) \<noteq> [])"

definition answer_text ::
  "world \<Rightarrow> plugin_config \<Rightarrow> jsstring \<Rightarrow> (jsstring \<rightharpoonup> jsstring) \<Rightarrow> jsstring
     \<Rightarrow> notion_comment \<Rightarrow> jsstring" where
  "answer_text w config pageId quoteMap discussionId c =
     processCommentWithAgent w config (extractTextFromComment c) (getPageTitle w pageId)
       (quoteMap discussionId)"

definition answer_events ::
  "world \<Rightarrow> plugin_config \<Rightarrow> jsstring \<Rightarrow> (jsstring \<rightharpoonup> jsstring) \<Rightarrow> jsstring
     \<Rightarrow> notion_comment \<Rightarrow> event list" where
  "answer_events w config pageId quoteMap discussionId c =
     [Responder discussionId (extractTextFromComment c) (getPageTitle w pageId)
        (quoteMap discussionId),
      ReplyPost discussionId (answer_text w config pageId quoteMap discussionId c)
        (replyToComment w discussionId (answer_text w config pageId quoteMap discussionId c))]"

text \<open>
  The identifiers stored for a page (none when the page has no entry); the entries of
  page-level comments, which carry no quote; the entries of the comments on one block,
  which carry the block's plain text when it is not empty; and the pass over the threads
  of a page, from the entries fetched for it.
\<close>

definition processed_ids :: "ProcessedState \<Rightarrow> jsstring \<Rightarrow> jsstring list" where
  "processed_ids st pageId = (case processedComments st pageId of None \<Rightarrow> [] | Some ids \<Rightarrow> ids)"

definition page_entries :: "notion_comment list \<Rightarrow> entry list" where
  "page_entries pageComments = map (\<lambda>c. \<lparr>comment = c, quote = None\<rparr>) pageComments"

definition block_entries :: "world \<Rightarrow> block \<Rightarrow> entry list" where
  "block_entries w b =
     (case getCommentsForBlock w (block_id b) of
        None \<Rightarrow> []
      | Some blockComments \<Rightarrow>
          map (\<lambda>c. \<lparr>comment = c,
                    quote = (if extractBlockText b = [] then None else Some (extractBlockText b))\<rparr>)
            blockComments)"

definition page_threads ::
  "world \<Rightarrow> plugin_config \<Rightarrow> jsstring option \<Rightarrow> jsstring \<Rightarrow> entry list \<Rightarrow> jsstring list
     \<Rightarrow> jsstring list \<times> event list \<times> error option" where
  "page_threads w config uid pageId es ids =
     threads_loop w config uid pageId (buildQuoteMap es) (groupByDiscussion (map comment es)) ids []"

text \<open>
  A thread is settled when it is not empty and its latest comment is processed; a page
  is settled when its aggregation returns, the state has an entry for it and all its
  threads are settled. \<open>index_pages\<close> is what the cycle reads from the index page and
  \<open>watched_pages\<close> the watch list it derives, with the fallback to the configuration.
\<close>

definition thread_settled :: "jsstring list \<Rightarrow> jsstring \<times> notion_comment list \<Rightarrow> bool" where
  "thread_settled ids g = (snd g \<noteq> [] \<and> comment_id (latestComment (snd g)) \<in> set ids)"

definition page_settled :: "world \<Rightarrow> ProcessedState \<Rightarrow> jsstring \<Rightarrow> bool" where
  "page_settled w st pageId =
     (case getAllCommentsForPage w pageId of
        None \<Rightarrow> False
      | Some es \<Rightarrow>
          processedComments st pageId \<noteq> None
          \<and> list_all (thread_settled (processed_ids st pageId))
                (groupByDiscussion (map comment es)))"

definition watched_pages :: "plugin_config \<Rightarrow> jsstring list \<Rightarrow> jsstring list" where
  "watched_pages config fromIndex =
     (if fromIndex = [] \<and> watchedPages config \<noteq> [] then watchedPages config else fromIndex)"

definition index_pages :: "world \<Rightarrow> plugin_config \<Rightarrow> (error + jsstring list) option" where
  "index_pages w config =
     (if truthy (indexPage config)
      then getWatchedPagesFromIndex w (or_default (indexPage config) [])
      else Some (Inr []))"

text \<open>
  Counting the events of one thread; the invariant of \<open>groupByDiscussion\<close>: the keys
  are distinct, no group is empty, and a group holds the comments of its discussion in
  the order of the input; and the events that are not a failed reply post.
\<close>

fun is_responder_for :: "jsstring \<Rightarrow> event \<Rightarrow> bool" where
  "is_responder_for d (Responder d' t p q) = (d' = d)"
| "is_responder_for d (ReplyPost d' t ok) = False"

fun is_post_for :: "jsstring \<Rightarrow> event \<Rightarrow> bool" where
  "is_post_for d (Responder d' t p q) = False"
| "is_post_for d (ReplyPost d' t ok) = (d' = d)"

definition responder_calls :: "jsstring \<Rightarrow> event list \<Rightarrow> nat" where
  "responder_calls d evs = length (filter (is_responder_for d) evs)"

definition reply_posts :: "jsstring \<Rightarrow> event list \<Rightarrow> nat" where
  "reply_posts d evs = length (filter (is_post_for d) evs)"

definition grouped :: "notion_comment list \<Rightarrow> (jsstring \<times> notion_comment list) list \<Rightarrow> bool" where
  "grouped seen gs = (distinct (map fst gs) \<and> list_all (\<lambda>g. snd g \<noteq> []) gs
     \<and> list_all (\<lambda>g. snd g = filter (\<lambda>c. discussion_id c = fst g) seen) gs
     \<and> set (map fst gs) = set (map discussion_id seen))"


text \<open>
  The thread resolver and the cycle in the specification's words, as definitions of
  their own. \<open>decide\<close> is the decision on the latest comment of a thread: no action
  when its identifier is processed, else a skip that marks it processed when it is the
  bot's own or its trimmed text is empty, else one answer attempt. \<open>decide_threads\<close>
  decides the threads of a page in order, each by its latest comment alone;
  \<open>visit_page\<close> does so for the threads grouped from the entries of a page; and
  \<open>visit_pages\<close> visits the entries of a watch list in order, each visit starting
  from the identifiers stored for its page. \<open>cycle_pages\<close> is the watch list of a
  cycle, and a page carries a discussion when one of its comments belongs to it.
\<close>

definition decide ::
  "world \<Rightarrow> plugin_config \<Rightarrow> jsstring option \<Rightarrow> jsstring \<Rightarrow> (jsstring \<rightharpoonup> jsstring)
     \<Rightarrow> jsstring \<Rightarrow> notion_comment \<Rightarrow> jsstring list \<Rightarrow> jsstring list \<times> event list" where
  "decide w config uid pageId quoteMap d latest ids =
     (if comment_id latest \<in> set ids then (ids, [])
      else if bot_authored uid latest then (ids @ [comment_id latest], [])
      else if trim (extractTextFromComment latest) = [] then (ids @ [comment_id latest], [])
      else (if replyToComment w d (answer_text w config pageId quoteMap d latest)
            then ids @ [comment_id latest] else ids,
            answer_events w config pageId quoteMap d latest))"

fun decide_threads ::
  "world \<Rightarrow> plugin_config \<Rightarrow> jsstring option \<Rightarrow> jsstring \<Rightarrow> (jsstring \<rightharpoonup> jsstring)
     \<Rightarrow> (jsstring \<times> notion_comment list) list \<Rightarrow> jsstring list \<Rightarrow> jsstring list \<times> event list" where
  "decide_threads w config uid pageId quoteMap [] ids = (ids, [])"
| "decide_threads w config uid pageId quoteMap ((d, cs) # gs) ids =
     (let r1 = decide w config uid pageId quoteMap d (latestComment cs) ids;
          r2 = decide_threads w config uid pageId quoteMap gs (fst r1)
      in (fst r2, snd r1 @ snd r2))"

definition visit_page ::
  "world \<Rightarrow> plugin_config \<Rightarrow> jsstring option \<Rightarrow> jsstring \<Rightarrow> entry list \<Rightarrow> jsstring list
     \<Rightarrow> jsstring list \<times> event list" where
  "visit_page w config uid pageId es ids =
     decide_threads w config uid pageId (buildQuoteMap es) (groupByDiscussion (map comment es)) ids"

fun visit_pages ::
  "world \<Rightarrow> plugin_config \<Rightarrow> jsstring option \<Rightarrow> jsstring list \<Rightarrow> (jsstring \<rightharpoonup> jsstring list)
     \<Rightarrow> (jsstring \<rightharpoonup> jsstring list) \<times> event list" where
  "visit_pages w config uid [] pc = (pc, [])"
| "visit_pages w config uid (p # ps) pc =
     (case getAllCommentsForPage w p of
        None \<Rightarrow> (pc, [])
      | Some es \<Rightarrow>
          (let r1 = visit_page w config uid p es (case pc p of None \<Rightarrow> [] | Some ids \<Rightarrow> ids);
               r2 = visit_pages w config uid ps (pc(p \<mapsto> fst r1))
           in (fst r2, snd r1 @ snd r2)))"

definition cycle_pages :: "world \<Rightarrow> plugin_config \<Rightarrow> jsstring list" where
  "cycle_pages w config =
     (if enabled config
      then (case index_pages w config of
              Some (Inr fromIndex) \<Rightarrow> watched_pages config fromIndex
            | _ \<Rightarrow> [])
      else [])"

definition carries :: "world \<Rightarrow> jsstring \<Rightarrow> jsstring \<Rightarrow> bool" where
  "carries w d p =
     (case getAllCommentsForPage w p of
        None \<Rightarrow> False
      | Some es \<Rightarrow> d \<in> set (map (\<lambda>e. discussion_id (comment e)) es))"

section \<open>Link extraction\<close>

lemma decode_no_percent: "37 \<notin> set s \<Longrightarrow> decodeURIComponent s = Some s"
  by (induction s) auto

lemma hex_not_ws: "is_hex c \<Longrightarrow> \<not> is_ws c"
  by (auto simp: is_hex_def is_ws_def)

lemma matches_prefix_hex_replicate:
  "matches_prefix (replicate n Hex) s \<longleftrightarrow> n \<le> length s \<and> list_all is_hex (take n s)"
  by (induction n arbitrary: s) (case_tac s; auto)+

lemma match_trailing_hex32_append:
  assumes "length h = 32" "list_all is_hex h"
  shows "match_trailing_hex32 (p @ h) = Some h"
proof (induction p)
  case Nil
  from assms obtain c cs where h: "h = c # cs" by (cases h) auto
  have "matches_prefix hex32_pattern h" "drop 32 h = []" "take 32 h = h"
    using assms by (simp_all add: hex32_pattern_def matches_prefix_hex_replicate)
  then show ?case by (simp add: h)
next
  case (Cons x p)
  have ne: "drop 32 (x # p @ h) \<noteq> []" using assms by (simp; linarith)
  have "last (drop 32 (x # p @ h)) = last h" using assms
    by (metis ne append_Cons drop_eq_Nil last_appendR last_drop length_0_conv not_less
        zero_neq_numeral linorder_not_le)
  moreover have "is_hex (last h)" using assms
    by (metis last_in_set length_0_conv list_all_iff zero_neq_numeral)
  ultimately have "\<not> list_all is_ws (drop 32 (x # p @ h))"
    using ne hex_not_ws by (metis last_in_set list_all_iff)
  then have "match_trailing_hex32 (x # p @ h) = match_trailing_hex32 (p @ h)"
    by (simp only: match_trailing_hex32.simps simp_thms if_False)
  then show ?case using Cons by (simp only: append_Cons)
qed

lemma matches_prefix_dashes:
  "matches_prefix ks s \<Longrightarrow> count_list ks Dash \<le> count_list s 45"
  by (induction ks s rule: matches_prefix.induct) (auto simp: is_hex_def)

lemma match_uuid_dashes: "match_uuid s = Some u \<Longrightarrow> 4 \<le> count_list s 45"
proof (induction s)
  case Nil
  then show ?case by simp
next
  case (Cons c cs)
  show ?case
  proof (cases "matches_prefix uuid_pattern (c # cs)")
    case True
    from matches_prefix_dashes[OF this] show ?thesis by (simp add: uuid_pattern_def)
  next
    case False
    with Cons show ?thesis by (auto split: if_splits)
  qed
qed

lemma foldl_push_unique:
  "distinct acc \<Longrightarrow>
   foldl (\<lambda>a x. push_unique x a) acc xs = acc @ filter (\<lambda>y. y \<notin> set acc) (dedup_first xs)"
proof (induction xs arbitrary: acc)
  case Nil
  then show ?case by simp
next
  case (Cons x xs)
  show ?case
  proof (cases "x \<in> set acc")
    case True
    then show ?thesis using Cons
      by (auto simp: push_unique_def intro!: filter_cong)
  next
    case False
    have "distinct (acc @ [x])" using False Cons.prems by simp
    from Cons.IH[OF this] False show ?thesis
      by (auto simp: push_unique_def intro!: filter_cong)
  qed
qed

lemma dedup_first_set: "set (dedup_first xs) = set xs"
  by (induction xs) auto

lemma dedup_first_distinct: "distinct (dedup_first xs)"
  by (induction xs) (auto simp: dedup_first_set)

lemma push_all_simps [simp]:
  "push_all acc [] = acc"
  "push_all acc (x # xs) = push_all (push_unique x acc) xs"
  "push_all acc (xs @ ys) = push_all (push_all acc xs) ys"
  by (simp_all add: push_all_def)

lemma extractFromUrl_spec:
  "decodeURIComponent url \<noteq> None \<Longrightarrow>
   extractFromUrl url acc = Inr (push_all acc (url_ids url))"
  by (auto simp: extractFromUrl_def url_ids_def Let_def split: option.splits)

lemma extractFromOptUrl_spec:
  "list_all (\<lambda>u. decodeURIComponent u \<noteq> None) (opt_url v) \<Longrightarrow>
   extractFromOptUrl v acc = Inr (push_all acc (concat (map url_ids (opt_url v))))"
  by (auto simp: extractFromOptUrl_def opt_url_def extractFromUrl_spec split: option.splits)

lemma processRichText_spec:
  "list_all (\<lambda>u. decodeURIComponent u \<noteq> None) (concat (map run_urls rts)) \<Longrightarrow>
   processRichText rts acc
     = Inr (push_all acc (concat (map url_ids (concat (map run_urls rts)))))"
  by (induction rts arbitrary: acc) (simp_all add: run_urls_def extractFromOptUrl_spec)

lemma extractPageLinks_loop_spec:
  "urls_decode bs \<Longrightarrow>
   extractPageLinks_loop bs acc = Inr (push_all acc (concat (map block_links bs)))"
proof (induction bs arbitrary: acc)
  case Nil
  then show ?case by simp
next
  case (Cons b bs)
  from Cons.prems have rest: "urls_decode bs"
    and here: "list_all (\<lambda>u. decodeURIComponent u \<noteq> None) (block_urls b)"
    by (simp_all add: urls_decode_def)
  note IH = Cons.IH[OF rest]
  show ?case
  proof (cases "block_type b = js ''child_page'' \<or> block_type b = js ''child_database''
      \<or> block_type b = js ''link_to_page''")
    case True
    then show ?thesis
      by (auto simp: IH block_links_def opt_url_def split: option.splits)
  next
    case False
    show ?thesis
    proof (cases "block_rich_text b")
      case None
      then show ?thesis using False by (simp add: IH block_links_def block_urls_def)
    next
      case (Some rts)
      with here False
      have "list_all (\<lambda>u. decodeURIComponent u \<noteq> None) (concat (map run_urls rts))"
        by (simp add: block_urls_def)
      from processRichText_spec[OF this] Some False show ?thesis
        by (simp add: IH block_links_def block_urls_def)
    qed
  qed
qed

lemma extractPageLinks_spec:
  "urls_decode bs \<Longrightarrow> extractPageLinks bs = Inr (dedup_first (concat (map block_links bs)))"
  using foldl_push_unique[of "[]"]
  by (simp add: extractPageLinks_def extractPageLinks_loop_spec push_all_def)

section \<open>The fetchers\<close>

lemma getCommentsForBlock_loop_partial:
  "follows (comments_list w b) cursor rs \<Longrightarrow>
   getCommentsForBlock_loop w b cursor acc = Some (acc @ concat (map results rs))"
proof (induction rs arbitrary: cursor acc)
  case Nil
  then show ?case
    by (subst getCommentsForBlock_loop.simps) (auto simp: isl_def)
next
  case (Cons r rs)
  then show ?case
    by (subst getCommentsForBlock_loop.simps) simp
qed

lemma getPageBlocks_loop_partial:
  "follows (blocks_children_list w b) cursor rs \<Longrightarrow>
   getPageBlocks_loop w b cursor acc = Some (acc @ concat (map results rs))"
proof (induction rs arbitrary: cursor acc)
  case Nil
  then show ?case
    by (subst getPageBlocks_loop.simps) (auto simp: isl_def)
next
  case (Cons r rs)
  then show ?case
    by (subst getPageBlocks_loop.simps) simp
qed

lemma getCommentsForBlock_single:
  "comments_list w b None = Inr r \<Longrightarrow> \<not> truthy (if has_more r then next_cursor r else None)
   \<Longrightarrow> getCommentsForBlock w b = Some (results r)"
  unfolding getCommentsForBlock_def
  by (subst getCommentsForBlock_loop.simps) simp

lemma getCommentsForBlock_fail:
  "isl (comments_list w b None) \<Longrightarrow> getCommentsForBlock w b = Some []"
  unfolding getCommentsForBlock_def
  by (subst getCommentsForBlock_loop.simps) (auto simp: isl_def)

lemma getPageBlocks_single:
  "blocks_children_list w b None = Inr r \<Longrightarrow> \<not> truthy (if has_more r then next_cursor r else None)
   \<Longrightarrow> getPageBlocks w b = Some (results r)"
  unfolding getPageBlocks_def
  by (subst getPageBlocks_loop.simps) simp

lemma getPageBlocks_fail:
  "isl (blocks_children_list w b None) \<Longrightarrow> getPageBlocks w b = Some []"
  unfolding getPageBlocks_def
  by (subst getPageBlocks_loop.simps) (auto simp: isl_def)

section \<open>Threads and the loop over them\<close>

lemma sortByTime_Nil_iff [simp]: "sortByTime cs = [] \<longleftrightarrow> cs = []"
  by (metis length_0_conv length_sort sortByTime_def)

lemma latestComment_single [simp]: "latestComment [c] = c"
  by (simp add: latestComment_def sortByTime_def)

lemma latestComment_mem: "cs \<noteq> [] \<Longrightarrow> latestComment cs \<in> set cs"
  by (metis last_in_set latestComment_def set_sort sortByTime_Nil_iff sortByTime_def)

lemma latestComment_max:
  assumes "c \<in> set cs"
  shows "created_time c \<le> created_time (latestComment cs)"
proof -
  let ?ys = "sortByTime cs"
  have s: "sorted (map created_time ?ys)" by (simp add: sortByTime_def)
  have m: "c \<in> set ?ys" using assms by (simp add: sortByTime_def)
  have ne: "?ys \<noteq> []" using assms by auto
  from m obtain i where i: "i < length ?ys" "?ys ! i = c" by (auto simp: in_set_conv_nth)
  have "map created_time ?ys ! i \<le> map created_time ?ys ! (length ?ys - 1)"
    using s i by (intro sorted_nth_mono) auto
  then show ?thesis using i ne by (simp add: latestComment_def last_conv_nth)
qed

lemma last_filter_last:
  "xs \<noteq> [] \<Longrightarrow> P (last xs) \<Longrightarrow> last (filter P xs) = last xs"
  by (induction xs) (auto simp: filter_empty_conv)

lemma latestComment_stable:
  assumes "cs \<noteq> []"
  shows "latestComment cs =
     last (filter (\<lambda>c. created_time c = created_time (latestComment cs)) cs)"
proof -
  let ?k = "created_time (latestComment cs)"
  have "last (filter (\<lambda>c. created_time c = ?k) cs)
      = last (filter (\<lambda>c. created_time c = ?k) (sortByTime cs))"
    by (simp add: sortByTime_def sort_key_stable)
  also have "\<dots> = last (sortByTime cs)"
    using assms by (intro last_filter_last) (simp_all add: latestComment_def)
  finally show ?thesis by (simp add: latestComment_def)
qed

lemma thread_step_cases:
  assumes "cs \<noteq> []"
  shows "thread_step w config uid pageId quoteMap d cs ids =
     (if comment_id (latestComment cs) \<in> set ids then Inr (ids, [])
      else if bot_authored uid (latestComment cs) then Inr (ids @ [comment_id (latestComment cs)], [])
      else if trim (extractTextFromComment (latestComment cs)) = []
      then Inr (ids @ [comment_id (latestComment cs)], [])
      else Inr (if replyToComment w d (answer_text w config pageId quoteMap d (latestComment cs))
                then ids @ [comment_id (latestComment cs)] else ids,
                answer_events w config pageId quoteMap d (latestComment cs)))"
  using assms
  by (simp add: thread_step_def Let_def bot_authored_def answer_events_def answer_text_def)

lemma thread_step_latest_only:
  "cs \<noteq> [] \<Longrightarrow>
   thread_step w config uid pageId quoteMap d cs ids
     = thread_step w config uid pageId quoteMap d [latestComment cs] ids"
  by (simp add: thread_step_cases)

lemma group_add_keys: "map fst (group_add c gs) =
   (if discussion_id c \<in> set (map fst gs) then map fst gs else map fst gs @ [discussion_id c])"
  by (induction gs) (auto split: if_splits)

lemma group_add_distinct: "distinct (map fst gs) \<Longrightarrow> distinct (map fst (group_add c gs))"
  by (simp add: group_add_keys)

lemma group_add_nonempty: "list_all (\<lambda>g. snd g \<noteq> []) gs \<Longrightarrow> list_all (\<lambda>g. snd g \<noteq> []) (group_add c gs)"
  by (induction gs) auto

lemma group_add_content:
  assumes "list_all (\<lambda>g. snd g = filter (\<lambda>x. discussion_id x = fst g) seen) gs"
    and "distinct (map fst gs)"
    and "discussion_id c \<notin> fst ` set gs \<Longrightarrow> discussion_id c \<notin> discussion_id ` set seen"
  shows "list_all (\<lambda>g. snd g = filter (\<lambda>x. discussion_id x = fst g) (seen @ [c])) (group_add c gs)"
  using assms
proof (induction gs)
  case Nil
  then show ?case by (auto simp: filter_empty_conv image_iff)
next
  case (Cons g gs)
  obtain k cs where g: "g = (k, cs)" by (cases g)
  show ?case
  proof (cases "k = discussion_id c")
    case True
    have "\<forall>h \<in> set gs. fst h \<noteq> discussion_id c"
      using Cons.prems(2) True g by (auto simp: image_iff)
    then show ?thesis using Cons.prems(1) True g
      by (fastforce simp: list_all_iff)
  next
    case False
    have "list_all (\<lambda>g. snd g = filter (\<lambda>x. discussion_id x = fst g) (seen @ [c])) (group_add c gs)"
      using Cons.prems False g by (intro Cons.IH) auto
    then show ?thesis using Cons.prems(1) False g by simp
  qed
qed

lemma grouped_add:
  assumes "grouped seen gs"
  shows "grouped (seen @ [c]) (group_add c gs)"
proof -
  have k: "set (map fst gs) = set (map discussion_id seen)" and d: "distinct (map fst gs)"
    using assms by (simp_all add: grouped_def)
  have 1: "distinct (map fst (group_add c gs))" using d by (rule group_add_distinct)
  have 2: "list_all (\<lambda>g. snd g \<noteq> []) (group_add c gs)"
    using assms by (simp add: grouped_def group_add_nonempty)
  have 3: "list_all (\<lambda>g. snd g = filter (\<lambda>x. discussion_id x = fst g) (seen @ [c])) (group_add c gs)"
    using assms k by (intro group_add_content) (simp_all add: grouped_def)
  have 4: "set (map fst (group_add c gs)) = set (map discussion_id (seen @ [c]))"
    using k by (auto simp: group_add_keys)
  from 1 2 3 4 show ?thesis unfolding grouped_def by blast
qed

lemma grouped_foldl:
  "grouped seen gs \<Longrightarrow> grouped (seen @ cs) (foldl (\<lambda>groups c. group_add c groups) gs cs)"
proof (induction cs arbitrary: seen gs)
  case Nil
  then show ?case by simp
next
  case (Cons c cs)
  from Cons.IH[OF grouped_add[OF Cons.prems, of c]] show ?case by simp
qed

lemma groupByDiscussion_grouped: "grouped cs (groupByDiscussion cs)"
  using grouped_foldl[of "[]" "[]" cs] by (simp add: grouped_def groupByDiscussion_def)

lemma thread_step_total:
  "cs \<noteq> [] \<Longrightarrow> \<exists>ids' new. thread_step w config uid pageId quoteMap d cs ids = Inr (ids', new)"
  by (simp add: thread_step_cases)

lemma thread_step_counts:
  assumes "cs \<noteq> []" "thread_step w config uid pageId quoteMap d cs ids = Inr (ids', new)"
  shows "responder_calls d' new \<le> (if d' = d then 1 else 0)"
    and "reply_posts d' new \<le> (if d' = d then 1 else 0)"
  using assms
  by (auto simp: thread_step_cases answer_events_def responder_calls_def reply_posts_def
      split: if_splits)

lemma thread_step_grows:
  assumes "thread_step w config uid pageId quoteMap d cs ids = Inr (ids', new)"
  shows "set ids \<subseteq> set ids'"
  using assms by (auto simp: thread_step_def Let_def split: if_splits)



lemma threads_loop_evs:
  "threads_loop w config uid pageId quoteMap gs ids evs =
     (fst (threads_loop w config uid pageId quoteMap gs ids []),
      evs @ fst (snd (threads_loop w config uid pageId quoteMap gs ids [])),
      snd (snd (threads_loop w config uid pageId quoteMap gs ids [])))"
proof (induction gs arbitrary: ids evs)
  case Nil
  then show ?case by simp
next
  case (Cons g gs)
  obtain d cs where g: "g = (d, cs)" by (cases g)
  show ?case
  proof (cases "thread_step w config uid pageId quoteMap d cs ids")
    case (Inl e)
    then show ?thesis by (simp add: g)
  next
    case (Inr r)
    obtain ids' new where r: "r = (ids', new)" by (cases r)
    show ?thesis
      using Cons.IH[of ids' "evs @ new"] Cons.IH[of ids' new]
      by (simp add: g Inr r)
  qed
qed

lemma threads_loop_Cons:
  assumes "thread_step w config uid pageId quoteMap d cs ids = Inr (ids', new)"
  shows "threads_loop w config uid pageId quoteMap ((d, cs) # gs) ids [] =
     (fst (threads_loop w config uid pageId quoteMap gs ids' []),
      new @ fst (snd (threads_loop w config uid pageId quoteMap gs ids' [])),
      snd (snd (threads_loop w config uid pageId quoteMap gs ids' [])))"
  using assms threads_loop_evs[of w config uid pageId quoteMap gs ids' new] by simp

lemma threads_loop_no_error:
  "list_all (\<lambda>g. snd g \<noteq> []) gs \<Longrightarrow>
   snd (snd (threads_loop w config uid pageId quoteMap gs ids [])) = None"
proof (induction gs arbitrary: ids)
  case Nil
  then show ?case by simp
next
  case (Cons g gs)
  obtain d cs where g: "g = (d, cs)" by (cases g)
  with Cons.prems have ne: "cs \<noteq> []" by simp
  from thread_step_total[OF ne] obtain ids' new
    where st: "thread_step w config uid pageId quoteMap d cs ids = Inr (ids', new)" by blast
  show ?case using Cons.IH[of ids'] Cons.prems
    by (simp add: g threads_loop_Cons[OF st] del: threads_loop.simps)
qed

lemma threads_loop_grows:
  "set ids \<subseteq> set (fst (threads_loop w config uid pageId quoteMap gs ids evs))"
proof (induction gs arbitrary: ids evs)
  case Nil
  then show ?case by simp
next
  case (Cons g gs)
  obtain d cs where g: "g = (d, cs)" by (cases g)
  show ?case
  proof (cases "thread_step w config uid pageId quoteMap d cs ids")
    case (Inl e)
    then show ?thesis by (simp add: g)
  next
    case (Inr r)
    obtain ids' new where r: "r = (ids', new)" by (cases r)
    from thread_step_grows[OF Inr[unfolded r]] Cons.IH[of ids' "evs @ new"]
    show ?thesis by (auto simp: g Inr r)
  qed
qed

lemma responder_calls_append:
  "responder_calls d (xs @ ys) = responder_calls d xs + responder_calls d ys"
  by (simp add: responder_calls_def)

lemma reply_posts_append:
  "reply_posts d (xs @ ys) = reply_posts d xs + reply_posts d ys"
  by (simp add: reply_posts_def)

lemma threads_loop_counts:
  assumes "distinct (map fst gs)" "list_all (\<lambda>g. snd g \<noteq> []) gs"
  shows "responder_calls d' (fst (snd (threads_loop w config uid pageId quoteMap gs ids [])))
           \<le> (if d' \<in> fst ` set gs then 1 else 0)
       \<and> reply_posts d' (fst (snd (threads_loop w config uid pageId quoteMap gs ids [])))
           \<le> (if d' \<in> fst ` set gs then 1 else 0)"
  using assms
proof (induction gs arbitrary: ids)
  case Nil
  then show ?case by (simp add: responder_calls_def reply_posts_def)
next
  case (Cons g gs)
  obtain d cs where g: "g = (d, cs)" by (cases g)
  with Cons.prems have ne: "cs \<noteq> []" and dn: "d \<notin> fst ` set gs"
    and rest: "distinct (map fst gs)" "list_all (\<lambda>g. snd g \<noteq> []) gs" by auto
  from thread_step_total[OF ne] obtain ids' new
    where st: "thread_step w config uid pageId quoteMap d cs ids = Inr (ids', new)" by blast
  note c = thread_step_counts[OF ne st, of d'] and IH = Cons.IH[OF rest, of ids']
  note app = responder_calls_append reply_posts_append
  show ?case
  proof (cases "d' = d")
    case True
    with c IH dn show ?thesis
      by (simp add: g threads_loop_Cons[OF st] app del: threads_loop.simps)
  next
    case False
    with c IH show ?thesis
      by (auto simp: g threads_loop_Cons[OF st] app simp del: threads_loop.simps)
  qed
qed

lemma thread_step_decide:
  "cs \<noteq> [] \<Longrightarrow> thread_step w config uid pageId quoteMap d cs ids
     = Inr (decide w config uid pageId quoteMap d (latestComment cs) ids)"
  by (simp add: thread_step_cases decide_def)

lemma threads_loop_decide:
  "list_all (\<lambda>g. snd g \<noteq> []) gs \<Longrightarrow>
   threads_loop w config uid pageId quoteMap gs ids [] =
     (fst (decide_threads w config uid pageId quoteMap gs ids),
      snd (decide_threads w config uid pageId quoteMap gs ids), None)"
proof (induction gs arbitrary: ids)
  case Nil
  then show ?case by simp
next
  case (Cons g gs)
  obtain d cs where g: "g = (d, cs)" by (cases g)
  with Cons.prems have ne: "cs \<noteq> []" and rest: "list_all (\<lambda>g. snd g \<noteq> []) gs" by auto
  obtain ids' new where r: "decide w config uid pageId quoteMap d (latestComment cs) ids = (ids', new)"
    by (cases "decide w config uid pageId quoteMap d (latestComment cs) ids")
  from thread_step_decide[OF ne, of w config uid pageId quoteMap d ids] r
  have st: "thread_step w config uid pageId quoteMap d cs ids = Inr (ids', new)" by simp
  show ?case
    by (simp add: g threads_loop_Cons[OF st] Cons.IH[OF rest] r Let_def del: threads_loop.simps)
qed

lemma page_threads_visit:
  "page_threads w config uid pageId es ids =
     (fst (visit_page w config uid pageId es ids), snd (visit_page w config uid pageId es ids), None)"
proof -
  have "list_all (\<lambda>g. snd g \<noteq> []) (groupByDiscussion (map comment es))"
    using groupByDiscussion_grouped[of "map comment es"] by (simp add: grouped_def)
  from threads_loop_decide[OF this] show ?thesis by (simp add: page_threads_def visit_page_def)
qed

lemma visit_page_counts:
  "responder_calls d (snd (visit_page w config uid pageId es ids))
      \<le> (if d \<in> set (map (\<lambda>e. discussion_id (comment e)) es) then 1 else 0)
   \<and> reply_posts d (snd (visit_page w config uid pageId es ids))
      \<le> (if d \<in> set (map (\<lambda>e. discussion_id (comment e)) es) then 1 else 0)"
proof -
  have g: "grouped (map comment es) (groupByDiscussion (map comment es))"
    by (rule groupByDiscussion_grouped)
  then have dist: "distinct (map fst (groupByDiscussion (map comment es)))"
    and ne: "list_all (\<lambda>g. snd g \<noteq> []) (groupByDiscussion (map comment es))"
    and keys: "set (map fst (groupByDiscussion (map comment es))) = set (map discussion_id (map comment es))"
    by (simp_all add: grouped_def)
  have k: "d \<in> fst ` set (groupByDiscussion (map comment es))
      \<longleftrightarrow> d \<in> set (map (\<lambda>e. discussion_id (comment e)) es)"
    using keys by (simp add: comp_def)
  from threads_loop_counts[OF dist ne, of d w config uid pageId "buildQuoteMap es" ids]
  show ?thesis
    unfolding k by (simp add: threads_loop_decide[OF ne] visit_page_def)
qed

lemma decide_pairs:
  "responder_calls d' (snd (decide w config uid pageId quoteMap d c ids))
     = reply_posts d' (snd (decide w config uid pageId quoteMap d c ids))"
  by (simp add: decide_def answer_events_def responder_calls_def reply_posts_def)

lemma decide_threads_pairs:
  "responder_calls d' (snd (decide_threads w config uid pageId quoteMap gs ids))
     = reply_posts d' (snd (decide_threads w config uid pageId quoteMap gs ids))"
proof (induction gs arbitrary: ids)
  case Nil
  then show ?case by (simp add: responder_calls_def reply_posts_def)
next
  case (Cons g gs)
  obtain d cs where g: "g = (d, cs)" by (cases g)
  show ?case
    by (simp add: g Let_def responder_calls_append reply_posts_append decide_pairs Cons.IH)
qed

section \<open>The claims about one thread\<close>

text \<open>
  Claim C3. For a thread that reaches the reply-posting step (its latest comment is
  answerable): when posting the reply to the discussion fails, the identifier of the
  latest comment is not added to \<open>processedIds\<close>, which stay as they were, so in the
  next cycle the thread is answerable again and the whole answer flow runs again,
  responder call included, whatever the service then answers; when posting succeeds,
  the identifier is appended to \<open>processedIds\<close>. In both cases the events are one
  responder call and one reply post with that outcome.
\<close>

theorem reply_post_outcome:
  assumes "cs \<noteq> []" and "answerable uid ids (latestComment cs)"
  shows "(isl (comments_create w d (answer_text w config pageId quoteMap d (latestComment cs))) \<longrightarrow>
            thread_step w config uid pageId quoteMap d cs ids
              = Inr (ids, answer_events w config pageId quoteMap d (latestComment cs))
            \<and> comment_id (latestComment cs) \<notin> set ids
            \<and> (\<forall>w' quoteMap'. \<exists>ids'.
                  thread_step w' config uid pageId quoteMap' d cs ids
                    = Inr (ids', answer_events w' config pageId quoteMap' d (latestComment cs))))
       \<and> (\<not> isl (comments_create w d (answer_text w config pageId quoteMap d (latestComment cs))) \<longrightarrow>
            thread_step w config uid pageId quoteMap d cs ids
              = Inr (ids @ [comment_id (latestComment cs)],
                     answer_events w config pageId quoteMap d (latestComment cs)))
       \<and> answer_events w config pageId quoteMap d (latestComment cs)
            = [Responder d (extractTextFromComment (latestComment cs)) (getPageTitle w pageId)
                 (quoteMap d),
               ReplyPost d (answer_text w config pageId quoteMap d (latestComment cs))
                 (\<not> isl (comments_create w d
                    (answer_text w config pageId quoteMap d (latestComment cs))))]"
proof -
  let ?l = "latestComment cs"
  have eq: "\<And>w' q'. thread_step w' config uid pageId q' d cs ids =
      Inr (if replyToComment w' d (answer_text w' config pageId q' d ?l)
           then ids @ [comment_id ?l] else ids,
           answer_events w' config pageId q' d ?l)"
    using assms by (simp add: thread_step_cases answerable_def)
  have r: "replyToComment w d (answer_text w config pageId quoteMap d ?l)
      = (\<not> isl (comments_create w d (answer_text w config pageId quoteMap d ?l)))"
    by (simp add: replyToComment_def split: sum.splits)
  have n: "comment_id ?l \<notin> set ids" using assms(2) by (simp add: answerable_def)
  show ?thesis
    using n by (auto simp: eq r answer_events_def)
qed

lemma demo_answer:
  "answer_text (demo_world\<lparr>comments_create := f\<rparr>) demo_config (js ''P'') Map.empty (js ''d1'')
      (mk_comment ''c1'' ''d1'' 1000 ''hi'' ''u1'') = js ''ok''"
  by (simp add: answer_text_def processCommentWithAgent_def callAI_def Let_def demo_config_def
      demo_world_def callChatCompletions_def or_default_def getEnv_def js_def)

lemma demo_answerable:
  "answerable None [] (mk_comment ''c1'' ''d1'' 1000 ''hi'' ''u1'')"
  by (simp add: answerable_def bot_authored_def truthy_def mk_comment_def
      extractTextFromComment_def plain_texts_def trim_def js_def is_ws_def)

theorem reply_post_outcome_witness:
  "thread_step (demo_world\<lparr>comments_create := (\<lambda>d t. Inl down)\<rparr>) demo_config None (js ''P'')
      Map.empty (js ''d1'') [mk_comment ''c1'' ''d1'' 1000 ''hi'' ''u1''] []
     = Inr ([], [Responder (js ''d1'') (js ''hi'') None None, ReplyPost (js ''d1'') (js ''ok'') False])
   \<and> thread_step demo_world demo_config None (js ''P'')
      Map.empty (js ''d1'') [mk_comment ''c1'' ''d1'' 1000 ''hi'' ''u1''] []
     = Inr ([js ''c1''], [Responder (js ''d1'') (js ''hi'') None None, ReplyPost (js ''d1'') (js ''ok'') True])"
proof -
  let ?c = "mk_comment ''c1'' ''d1'' 1000 ''hi'' ''u1''"
  let ?w = "demo_world\<lparr>comments_create := (\<lambda>d t. Inl down)\<rparr>"
  have ne: "[?c] \<noteq> []" by simp
  have a: "answerable None [] (latestComment [?c])" using demo_answerable by simp
  have t: "getPageTitle ?w (js ''P'') = None" "getPageTitle demo_world (js ''P'') = None"
    by (simp_all add: getPageTitle_def demo_world_def)
  have x: "extractTextFromComment ?c = js ''hi''" "comment_id ?c = js ''c1''"
    by (simp_all add: extractTextFromComment_def plain_texts_def mk_comment_def)
  have "demo_world = demo_world\<lparr>comments_create := (\<lambda>d t. Inr ())\<rparr>"
    by (simp add: demo_world_def)
  then have ok: "answer_text demo_world demo_config (js ''P'') Map.empty (js ''d1'') ?c = js ''ok''"
    using demo_answer[of "\<lambda>d t. Inr ()"] by simp
  show ?thesis
    using reply_post_outcome[OF ne a, of ?w "js ''d1''" demo_config "js ''P''" Map.empty]
      reply_post_outcome[OF ne a, of demo_world "js ''d1''" demo_config "js ''P''" Map.empty]
    by (simp add: demo_answer ok t x) (simp add: demo_world_def)
qed

text \<open>
  Claim C6. For a thread actioned as answerable, when the responder call \<open>callAI\<close>
  fails, the dispatcher returns the fixed apology of \<open>processCommentWithAgent\<close> and
  does not fail itself; the apology is what is posted to the discussion; and when that
  post succeeds the identifier of the latest comment enters \<open>processedIds\<close>.
\<close>

theorem responder_failure_apology:
  assumes "cs \<noteq> []" and "answerable uid ids (latestComment cs)"
    and "isl (callAI w config (build_prompt (extractTextFromComment (latestComment cs))
                 (getPageTitle w pageId) (quoteMap d)))"
  shows "processCommentWithAgent w config (extractTextFromComment (latestComment cs))
            (getPageTitle w pageId) (quoteMap d) = apology_agent
       \<and> thread_step w config uid pageId quoteMap d cs ids
            = Inr (if replyToComment w d apology_agent
                   then ids @ [comment_id (latestComment cs)] else ids,
                   [Responder d (extractTextFromComment (latestComment cs))
                      (getPageTitle w pageId) (quoteMap d),
                    ReplyPost d apology_agent (replyToComment w d apology_agent)])
       \<and> (\<not> isl (comments_create w d apology_agent) \<longrightarrow>
            thread_step w config uid pageId quoteMap d cs ids
              = Inr (ids @ [comment_id (latestComment cs)],
                     [Responder d (extractTextFromComment (latestComment cs))
                        (getPageTitle w pageId) (quoteMap d),
                      ReplyPost d apology_agent True]))"
proof -
  let ?l = "latestComment cs"
  have a: "processCommentWithAgent w config (extractTextFromComment ?l)
      (getPageTitle w pageId) (quoteMap d) = apology_agent"
    using assms(3) by (auto simp: processCommentWithAgent_def isl_def)
  have s: "thread_step w config uid pageId quoteMap d cs ids
      = Inr (if replyToComment w d apology_agent then ids @ [comment_id ?l] else ids,
             [Responder d (extractTextFromComment ?l) (getPageTitle w pageId) (quoteMap d),
              ReplyPost d apology_agent (replyToComment w d apology_agent)])"
    using assms(1,2) a
    by (simp add: thread_step_cases answerable_def answer_events_def answer_text_def)
  have r: "\<not> isl (comments_create w d apology_agent) \<Longrightarrow> replyToComment w d apology_agent"
    by (cases "comments_create w d apology_agent") (simp_all add: replyToComment_def)
  show ?thesis using a s r by simp
qed

lemma outage_callAI: "callAI outage_world fallback_config prompt = Inl down"
  by (simp add: callAI_def Let_def outage_world_def fallback_config_def demo_config_def
      demo_world_def callChatCompletions_def or_default_def getEnv_def trim_def js_def is_ws_def)

theorem responder_failure_apology_witness:
  "thread_step outage_world fallback_config None (js ''P'') Map.empty (js ''d1'')
      [mk_comment ''c1'' ''d1'' 1000 ''hi'' ''u1''] []
     = Inr ([js ''c1''],
            [Responder (js ''d1'') (js ''hi'') None None, ReplyPost (js ''d1'') apology_agent True])"
proof -
  let ?c = "mk_comment ''c1'' ''d1'' 1000 ''hi'' ''u1''"
  have ne: "[?c] \<noteq> []" by simp
  have a: "answerable None [] (latestComment [?c])"
    by (simp add: answerable_def bot_authored_def truthy_def mk_comment_def
        extractTextFromComment_def plain_texts_def trim_def js_def is_ws_def)
  have f: "isl (callAI outage_world fallback_config
      (build_prompt (extractTextFromComment (latestComment [?c]))
         (getPageTitle outage_world (js ''P'')) (Map.empty (js ''d1''))))"
    by (simp add: outage_callAI)
  have t: "getPageTitle outage_world (js ''P'') = None"
    by (simp add: getPageTitle_def outage_world_def demo_world_def)
  have x: "extractTextFromComment ?c = js ''hi''" "comment_id ?c = js ''c1''"
    by (simp_all add: extractTextFromComment_def plain_texts_def mk_comment_def)
  have p: "replyToComment outage_world (js ''d1'') apology_agent"
    by (simp add: replyToComment_def outage_world_def demo_world_def)
  note inst = responder_failure_apology[where d="js ''d1''" and quoteMap=Map.empty, OF ne a f]
  from inst[THEN conjunct2, THEN conjunct1] show ?thesis
    by (simp add: p t x)
qed

text \<open>
  Claim C9. When \<open>integrationUserId\<close> is absent (undefined or the empty string), no
  comment counts as the bot's own: a thread whose latest comment was written by the bot
  (author \<open>botId\<close>), is not yet processed and is not blank, is answered with one
  responder call and one reply post. With the bot's identifier configured, the same
  thread is skipped and its latest comment marked processed.
\<close>

theorem absent_bot_id_answers_bot_comment:
  assumes "integrationUserId = None \<or> integrationUserId = Some []"
    and "cs \<noteq> []" and "created_by_id (latestComment cs) = botId"
    and "comment_id (latestComment cs) \<notin> set ids"
    and "trim (extractTextFromComment (latestComment cs)) \<noteq> []"
  shows "(\<forall>c. \<not> bot_authored integrationUserId c)
       \<and> thread_step w config integrationUserId pageId quoteMap d cs ids
            = Inr (if replyToComment w d (answer_text w config pageId quoteMap d (latestComment cs))
                   then ids @ [comment_id (latestComment cs)] else ids,
                   [Responder d (extractTextFromComment (latestComment cs))
                      (getPageTitle w pageId) (quoteMap d),
                    ReplyPost d (answer_text w config pageId quoteMap d (latestComment cs))
                      (replyToComment w d
                         (answer_text w config pageId quoteMap d (latestComment cs)))])
       \<and> (botId \<noteq> [] \<longrightarrow>
            thread_step w config (Some botId) pageId quoteMap d cs ids
              = Inr (ids @ [comment_id (latestComment cs)], []))"
proof -
  have nb: "\<And>c. \<not> bot_authored integrationUserId c"
    using assms(1) by (auto simp: bot_authored_def truthy_def)
  have b: "botId \<noteq> [] \<Longrightarrow> bot_authored (Some botId) (latestComment cs)"
    using assms(3) by (simp add: bot_authored_def truthy_def)
  show ?thesis
    using assms(2,4,5) nb b by (simp add: thread_step_cases answer_events_def)
qed

theorem absent_bot_id_answers_bot_comment_witness:
  "thread_step demo_world demo_config None (js ''P'') Map.empty (js ''d1'')
      [mk_comment ''c1'' ''d1'' 1000 ''hi'' ''u1'', mk_comment ''c2'' ''d1'' 2000 ''ok'' ''bot''] []
     = Inr ([js ''c2''],
            [Responder (js ''d1'') (js ''ok'') None None, ReplyPost (js ''d1'') (js ''ok'') True])
   \<and> thread_step demo_world demo_config (Some (js ''bot'')) (js ''P'') Map.empty (js ''d1'')
      [mk_comment ''c1'' ''d1'' 1000 ''hi'' ''u1'', mk_comment ''c2'' ''d1'' 2000 ''ok'' ''bot''] []
     = Inr ([js ''c2''], [])"
proof -
  let ?cs = "[mk_comment ''c1'' ''d1'' 1000 ''hi'' ''u1'', mk_comment ''c2'' ''d1'' 2000 ''ok'' ''bot'']"
  let ?c = "mk_comment ''c2'' ''d1'' 2000 ''ok'' ''bot''"
  have l: "latestComment ?cs = ?c"
    by (simp add: latestComment_def sortByTime_def mk_comment_def)
  have x: "extractTextFromComment ?c = js ''ok''" "comment_id ?c = js ''c2''"
    "created_by_id ?c = js ''bot''"
    by (simp_all add: extractTextFromComment_def plain_texts_def mk_comment_def)
  have h: "(None::jsstring option) = None \<or> (None::jsstring option) = Some []" "?cs \<noteq> []"
    "created_by_id (latestComment ?cs) = js ''bot''" "comment_id (latestComment ?cs) \<notin> set []"
    "trim (extractTextFromComment (latestComment ?cs)) \<noteq> []"
    by (simp_all add: l x) (simp add: trim_def js_def is_ws_def)
  have t: "getPageTitle demo_world (js ''P'') = None"
    by (simp add: getPageTitle_def demo_world_def)
  have a: "answer_text demo_world demo_config (js ''P'') Map.empty (js ''d1'') ?c = js ''ok''"
    by (simp add: answer_text_def processCommentWithAgent_def callAI_def Let_def demo_config_def
      demo_world_def callChatCompletions_def or_default_def getEnv_def js_def)
  have r: "replyToComment demo_world (js ''d1'') (js ''ok'')"
    by (simp add: replyToComment_def demo_world_def)
  have nb: "js ''bot'' \<noteq> []" by (simp add: js_def)
  show ?thesis
    using absent_bot_id_answers_bot_comment[OF h, of demo_world demo_config "js ''P''" Map.empty "js ''d1''"]
    by (simp add: l x t a r nb)
qed

section \<open>The claims about fetching and aggregation\<close>

lemma inline_comments_loop_entries:
  "inline_comments_loop w bs rs = Some es \<Longrightarrow>
   es = rs @ concat (map (block_entries w) (filter (\<lambda>b. \<not> non_commentable b) bs))"
proof (induction bs arbitrary: rs)
  case Nil
  then show ?case by simp
next
  case (Cons b bs)
  show ?case
  proof (cases "non_commentable b")
    case True
    with Cons show ?thesis by simp
  next
    case False
    with Cons.prems obtain cs where cs: "getCommentsForBlock w (block_id b) = Some cs"
      by (auto split: option.splits)
    show ?thesis
    proof (cases "cs = []")
      case True
      with Cons False cs show ?thesis by (simp add: block_entries_def)
    next
      case ne: False
      with Cons.prems False cs Cons.IH[of "rs @ block_entries w b"]
      show ?thesis by (simp add: block_entries_def or_undefined_def)
    qed
  qed
qed

lemma page_step_result:
  assumes "getAllCommentsForPage w pageId = Some es"
  shows "page_step w config uid pageId (st, tr) =
     Some (st\<lparr>processedComments :=
                (processedComments st)(pageId \<mapsto>
                   fst (page_threads w config uid pageId es (processed_ids st pageId)))\<rparr>,
           tr @ fst (snd (page_threads w config uid pageId es (processed_ids st pageId))))"
proof -
  have "list_all (\<lambda>g. snd g \<noteq> []) (groupByDiscussion (map comment es))"
    using groupByDiscussion_grouped[of "map comment es"] by (simp add: grouped_def)
  from threads_loop_no_error[OF this] show ?thesis
    using assms by (simp add: page_step_def Let_def page_threads_def processed_ids_def)
qed

text \<open>
  Claim C10. The comment-listing and block-listing fetchers return a list and have no
  way to raise to their caller. When the rounds \<open>rs\<close> of pagination succeed and the
  next request fails, they return the results of those rounds, concatenated: all that
  was accumulated, neither nothing nor an error. The aggregator then works with the
  partial comment list, or the partial block list, and the page is processed with the
  entries so obtained: its threads are decided and its entry in the state is written.
\<close>

theorem fetchers_return_partial_list:
  "(follows (comments_list w b) None rs \<longrightarrow>
      getCommentsForBlock w b = Some (concat (map results rs)))
   \<and> (follows (blocks_children_list w b) None rs' \<longrightarrow>
      getPageBlocks w b = Some (concat (map results rs')))
   \<and> (follows (comments_list w b) None rs \<and> getPageBlocks w b = Some blocks \<longrightarrow>
      getAllCommentsForPage w b
        = inline_comments_loop w blocks (page_entries (concat (map results rs))))
   \<and> (follows (blocks_children_list w b) None rs' \<and> getCommentsForBlock w b = Some pageComments \<longrightarrow>
      getAllCommentsForPage w b
        = inline_comments_loop w (concat (map results rs')) (page_entries pageComments))
   \<and> (getAllCommentsForPage w b = Some es \<longrightarrow>
      (\<exists>st' evs. page_step w config uid b (st, tr) = Some (st', tr @ evs)
         \<and> processedComments st' b \<noteq> None
         \<and> evs = fst (snd (page_threads w config uid b es (processed_ids st b)))))"
proof -
  have 1: "follows (comments_list w b) None rs \<Longrightarrow>
      getCommentsForBlock w b = Some (concat (map results rs))"
    using getCommentsForBlock_loop_partial[of w b None rs "[]"]
    by (simp add: getCommentsForBlock_def)
  have 2: "follows (blocks_children_list w b) None rs' \<Longrightarrow>
      getPageBlocks w b = Some (concat (map results rs'))"
    using getPageBlocks_loop_partial[of w b None rs' "[]"]
    by (simp add: getPageBlocks_def)
  show ?thesis
    using 1 2 page_step_result[of w b es config uid st tr]
    by (auto simp: getAllCommentsForPage_def page_entries_def)
qed

lemma poll_single_page:
  assumes "enabled config" "\<not> truthy (indexPage config)" "watchedPages config = [pageId]"
    and "getAllCommentsForPage w pageId = Some es"
  shows "pollNotionComments w config uid now file =
     Some (Inr (Some \<lparr>lastPollTime = now,
                       processedComments = (processedComments (loadState file))(pageId \<mapsto>
                          fst (page_threads w config uid pageId es
                                 (processed_ids (loadState file) pageId)))\<rparr>,
                fst (snd (page_threads w config uid pageId es
                            (processed_ids (loadState file) pageId)))))"
  using assms(1,2,3) page_step_result[OF assms(4), of config uid "loadState file" "[]"]
  by (simp add: pollNotionComments_def saveState_def)

lemma demo_thread_step:
  assumes "comments_create w = (\<lambda>d t. Inr ())" "pages_retrieve w = pages_retrieve demo_world"
    "chat_completions w = chat_completions demo_world" "process_env w = process_env demo_world"
  shows "thread_step w demo_config None (js ''P'') quoteMap (js d)
           [mk_comment i d t ''hi'' a] []
         = Inr ([js i], [Responder (js d) (js ''hi'') None (quoteMap (js d)),
                         ReplyPost (js d) (js ''ok'') True])"
  using assms
  by (simp add: thread_step_def Let_def latestComment_def sortByTime_def mk_comment_def
      truthy_def extractTextFromComment_def plain_texts_def trim_def is_ws_def
      getPageTitle_def processCommentWithAgent_def callAI_def demo_config_def demo_world_def
      callChatCompletions_def or_default_def getEnv_def replyToComment_def js_def)

theorem fetchers_return_partial_list_witness:
  "follows (comments_list partial_world (js ''P'')) None
      [\<lparr>results = [mk_comment ''c1'' ''d1'' 1000 ''hi'' ''u1''], has_more = True,
        next_cursor = Some (js ''k'')\<rparr>]
   \<and> getCommentsForBlock partial_world (js ''P'')
        = Some [mk_comment ''c1'' ''d1'' 1000 ''hi'' ''u1'']
   \<and> getAllCommentsForPage partial_world (js ''P'')
        = Some [\<lparr>comment = mk_comment ''c1'' ''d1'' 1000 ''hi'' ''u1'', quote = None\<rparr>]
   \<and> pollNotionComments partial_world demo_config None 5 None
        = Some (Inr (Some \<lparr>lastPollTime = 5, processedComments = [js ''P'' \<mapsto> [js ''c1'']]\<rparr>,
                     [Responder (js ''d1'') (js ''hi'') None None,
                      ReplyPost (js ''d1'') (js ''ok'') True]))"
proof -
  let ?c = "mk_comment ''c1'' ''d1'' 1000 ''hi'' ''u1''"
  let ?r = "\<lparr>results = [?c], has_more = True, next_cursor = Some (js ''k'')\<rparr>"
  have f: "follows (comments_list partial_world (js ''P'')) None [?r]"
    by (simp add: partial_world_def demo_world_def truthy_def down_def) (simp add: js_def)
  have b: "getPageBlocks partial_world (js ''P'') = Some []"
    using getPageBlocks_single[of partial_world "js ''P''" "single_page []"]
    by (simp add: partial_world_def demo_world_def single_page_def truthy_def)
  note inst = fetchers_return_partial_list[of partial_world "js ''P''" "[?r]" "[]" "[]" "[]"
      "[\<lparr>comment = ?c, quote = None\<rparr>]" demo_config None
      "\<lparr>lastPollTime = 0, processedComments = Map.empty\<rparr>" "[]"]
  from inst f have c: "getCommentsForBlock partial_world (js ''P'') = Some [?c]" by simp
  from inst f b have a: "getAllCommentsForPage partial_world (js ''P'')
      = Some [\<lparr>comment = ?c, quote = None\<rparr>]"
    by (simp add: page_entries_def)
  have g: "groupByDiscussion [?c] = [(js ''d1'', [?c])]"
    by (simp add: groupByDiscussion_def mk_comment_def)
  have p: "pollNotionComments partial_world demo_config None 5 None
        = Some (Inr (Some \<lparr>lastPollTime = 5, processedComments = [js ''P'' \<mapsto> [js ''c1'']]\<rparr>,
                     [Responder (js ''d1'') (js ''hi'') None None,
                      ReplyPost (js ''d1'') (js ''ok'') True]))"
    using demo_thread_step[of partial_world "buildQuoteMap [\<lparr>comment = ?c, quote = None\<rparr>]" "''d1''" "''c1''" 1000 "''u1''"]
    by (subst poll_single_page[OF _ _ _ a])
       (simp_all add: demo_config_def truthy_def page_threads_def g loadState_def
          processed_ids_def partial_world_def demo_world_def buildQuoteMap_def)
  from f c a p show ?thesis by blast
qed

lemma quote_world_comments:
  "getCommentsForBlock quote_world (js ''P'') = Some [mk_comment ''c1'' ''d1'' 1000 ''hi'' ''u1'']"
  "getCommentsForBlock quote_world (js ''b1'') = Some [mk_comment ''c2'' ''d2'' 2000 ''hi'' ''u1'']"
  "getCommentsForBlock quote_world (js ''b2'') = Some [mk_comment ''c3'' ''d3'' 3000 ''hi'' ''u1'']"
  "getPageBlocks quote_world (js ''P'') = Some [text_block, image_block]"
  using getCommentsForBlock_single[of quote_world "js ''P''" "single_page [mk_comment ''c1'' ''d1'' 1000 ''hi'' ''u1'']"]
    getCommentsForBlock_single[of quote_world "js ''b1''" "single_page [mk_comment ''c2'' ''d2'' 2000 ''hi'' ''u1'']"]
    getCommentsForBlock_single[of quote_world "js ''b2''" "single_page [mk_comment ''c3'' ''d3'' 3000 ''hi'' ''u1'']"]
    getPageBlocks_single[of quote_world "js ''P''" "single_page [text_block, image_block]"]
  by (simp_all add: quote_world_def demo_world_def single_page_def truthy_def js_def)

lemma demo_blocks:
  "block_id text_block = js ''b1''" "block_id image_block = js ''b2''"
  "\<not> non_commentable text_block" "\<not> non_commentable image_block"
  "extractBlockText text_block = js ''Revenue grew 12%''" "extractBlockText image_block = []"
  "js ''Revenue grew 12%'' \<noteq> []"
  by (simp_all add: text_block_def image_block_def non_commentable_def extractBlockText_def
      plain_texts_def js_def)

lemma quote_world_entries:
  "getAllCommentsForPage quote_world (js ''P'') =
     Some [\<lparr>comment = mk_comment ''c1'' ''d1'' 1000 ''hi'' ''u1'', quote = None\<rparr>,
           \<lparr>comment = mk_comment ''c2'' ''d2'' 2000 ''hi'' ''u1'',
            quote = Some (js ''Revenue grew 12%'')\<rparr>,
           \<lparr>comment = mk_comment ''c3'' ''d3'' 3000 ''hi'' ''u1'', quote = None\<rparr>]"
  by (simp add: getAllCommentsForPage_def quote_world_comments demo_blocks or_undefined_def)

text \<open>
  Claim C8, as stated: every inline comment anchored to a block is returned with that
  block's plain text as its quoted context. It fails for a block whose plain text is
  empty (\<open>quote || undefined\<close>): the comment on the image block below is returned with
  no quoted context, not with the empty text.
\<close>

theorem inline_quote_counterexample:
  "getAllCommentsForPage quote_world (js ''P'') =
     Some [\<lparr>comment = mk_comment ''c1'' ''d1'' 1000 ''hi'' ''u1'', quote = None\<rparr>,
           \<lparr>comment = mk_comment ''c2'' ''d2'' 2000 ''hi'' ''u1'',
            quote = Some (js ''Revenue grew 12%'')\<rparr>,
           \<lparr>comment = mk_comment ''c3'' ''d3'' 3000 ''hi'' ''u1'', quote = None\<rparr>]
   \<and> getCommentsForBlock quote_world (block_id image_block)
       = Some [mk_comment ''c3'' ''d3'' 3000 ''hi'' ''u1'']
   \<and> extractBlockText image_block = []
   \<and> quote \<lparr>comment = mk_comment ''c3'' ''d3'' 3000 ''hi'' ''u1'', quote = None\<rparr>
       \<noteq> Some (extractBlockText image_block)"
  using quote_world_entries quote_world_comments(3)
  by (simp add: demo_blocks)

text \<open>
  Claim C8, amended. When the aggregation of a page returns, its result is the
  page-level comments, each with no quoted context, followed by, for every block that
  is not a child page, a child database or unsupported, in order, the comments anchored
  to the block, each with the block's plain text as its quoted context when that text
  is not empty and with no quoted context when it is empty; the plain text of a block
  is the concatenation of the \<open>plain_text\<close> of its rich-text runs, and all comments on a
  block share it. A comment on a block with the text \<open>Revenue grew 12%\<close> carries
  exactly that string.
\<close>

theorem quote_attachment:
  assumes "getAllCommentsForPage w pageId = Some es"
  shows "(\<exists>pageComments blocks.
            getCommentsForBlock w pageId = Some pageComments
          \<and> getPageBlocks w pageId = Some blocks
          \<and> es = page_entries pageComments
                 @ concat (map (block_entries w) (filter (\<lambda>b. \<not> non_commentable b) blocks))
          \<and> (\<forall>e \<in> set (page_entries pageComments). quote e = None))
       \<and> (\<forall>b. \<forall>e \<in> set (block_entries w b).
             quote e = (if extractBlockText b = [] then None else Some (extractBlockText b)))
       \<and> (\<forall>b. extractBlockText b
             = (case block_rich_text b of None \<Rightarrow> [] | Some rts \<Rightarrow> concat (map plain_text rts)))"
proof -
  from assms obtain pageComments blocks
    where 1: "getCommentsForBlock w pageId = Some pageComments"
      and 2: "getPageBlocks w pageId = Some blocks"
      and 3: "inline_comments_loop w blocks (page_entries pageComments) = Some es"
    by (auto simp: getAllCommentsForPage_def page_entries_def split: option.splits)
  note 4 = inline_comments_loop_entries[OF 3]
  have 5: "\<forall>e \<in> set (page_entries pageComments). quote e = None"
    by (auto simp: page_entries_def)
  have 6: "\<forall>b. \<forall>e \<in> set (block_entries w b).
             quote e = (if extractBlockText b = [] then None else Some (extractBlockText b))"
    by (auto simp: block_entries_def split: option.splits)
  have 7: "\<forall>b. extractBlockText b
             = (case block_rich_text b of None \<Rightarrow> [] | Some rts \<Rightarrow> concat (map plain_text rts))"
    by (simp add: extractBlockText_def plain_texts_def split: option.splits)
  from 1 2 4 5 6 7 show ?thesis by blast
qed

theorem quote_attachment_witness:
  "getAllCommentsForPage quote_world (js ''P'') =
     Some [\<lparr>comment = mk_comment ''c1'' ''d1'' 1000 ''hi'' ''u1'', quote = None\<rparr>,
           \<lparr>comment = mk_comment ''c2'' ''d2'' 2000 ''hi'' ''u1'',
            quote = Some (js ''Revenue grew 12%'')\<rparr>,
           \<lparr>comment = mk_comment ''c3'' ''d3'' 3000 ''hi'' ''u1'', quote = None\<rparr>]
   \<and> block_entries quote_world text_block
       = [\<lparr>comment = mk_comment ''c2'' ''d2'' 2000 ''hi'' ''u1'',
           quote = Some (js ''Revenue grew 12%'')\<rparr>]
   \<and> extractBlockText text_block = js ''Revenue grew 12%''"
proof -
  note x = demo_blocks(5)
  have b: "block_entries quote_world text_block
       = [\<lparr>comment = mk_comment ''c2'' ''d2'' 2000 ''hi'' ''u1'',
           quote = Some (js ''Revenue grew 12%'')\<rparr>]"
    by (simp add: block_entries_def demo_blocks quote_world_comments)
  from quote_attachment[OF quote_world_entries] quote_world_entries b x show ?thesis by blast
qed

lemma inline_only_world_fetch:
  "isl (comments_list inline_only_world (js ''P'') None)"
  "getCommentsForBlock inline_only_world (js ''b1'') = Some [mk_comment ''c2'' ''d2'' 2000 ''hi'' ''u1'']"
  "getPageBlocks inline_only_world (js ''P'') = Some [text_block]"
  using getCommentsForBlock_single[of inline_only_world "js ''b1''" "single_page [mk_comment ''c2'' ''d2'' 2000 ''hi'' ''u1'']"]
    getPageBlocks_single[of inline_only_world "js ''P''" "single_page [text_block]"]
  by (simp_all add: inline_only_world_def demo_world_def single_page_def truthy_def js_def)

lemma inline_only_world_entries:
  "getAllCommentsForPage inline_only_world (js ''P'')
     = Some [\<lparr>comment = mk_comment ''c2'' ''d2'' 2000 ''hi'' ''u1'',
              quote = Some (js ''Revenue grew 12%'')\<rparr>]"
  using getCommentsForBlock_fail[OF inline_only_world_fetch(1)]
  by (simp add: getAllCommentsForPage_def inline_only_world_fetch demo_blocks or_undefined_def)

lemma inline_only_world_poll:
  "pollNotionComments inline_only_world demo_config None 5 None
     = Some (Inr (Some \<lparr>lastPollTime = 5, processedComments = [js ''P'' \<mapsto> [js ''c2'']]\<rparr>,
                  [Responder (js ''d2'') (js ''hi'') None (Some (js ''Revenue grew 12%'')),
                   ReplyPost (js ''d2'') (js ''ok'') True]))"
proof -
  let ?c = "mk_comment ''c2'' ''d2'' 2000 ''hi'' ''u1''"
  let ?es = "[\<lparr>comment = ?c, quote = Some (js ''Revenue grew 12%'')\<rparr>]"
  have g: "groupByDiscussion [?c] = [(js ''d2'', [?c])]"
    by (simp add: groupByDiscussion_def mk_comment_def)
  have q: "buildQuoteMap ?es (js ''d2'') = Some (js ''Revenue grew 12%'')"
    by (simp add: buildQuoteMap_def demo_blocks mk_comment_def)
  show ?thesis
    using demo_thread_step[of inline_only_world "buildQuoteMap ?es" "''d2''" "''c2''" 2000 "''u1''"]
    by (subst poll_single_page[OF _ _ _ inline_only_world_entries])
       (simp_all add: demo_config_def truthy_def page_threads_def g q loadState_def
          processed_ids_def inline_only_world_def demo_world_def)
qed

text \<open>
  Claim C4, as stated: a failure while fetching the top-level comments of a page, or
  its block list, is caught by the per-page caller, and the page is skipped for the
  cycle with none of its threads actioned. It fails: the fetchers catch the failure
  themselves. Below, the request for the top-level comments of the only watched page
  fails, and the cycle still answers the inline thread of the page and records it.
\<close>

theorem page_skipped_counterexample:
  "isl (comments_list inline_only_world (js ''P'') None)
   \<and> watchedPages demo_config = [js ''P'']
   \<and> pollNotionComments inline_only_world demo_config None 5 None
     = Some (Inr (Some \<lparr>lastPollTime = 5, processedComments = [js ''P'' \<mapsto> [js ''c2'']]\<rparr>,
                  [Responder (js ''d2'') (js ''hi'') None (Some (js ''Revenue grew 12%'')),
                   ReplyPost (js ''d2'') (js ''ok'') True]))"
  using inline_only_world_fetch(1) inline_only_world_poll by (simp add: demo_config_def)

text \<open>
  Claim C4, amended. A failure of a request for the top-level comments of a page, or
  for its block list, does not reach the per-page caller: the fetcher returns the
  results of the rounds that succeeded before it (none when the first request fails),
  and the page is aggregated with them, from its inline comments alone when no
  page-level comment was fetched, from its page-level comments alone when no block was.
  Whenever the aggregation returns, the page is processed in this cycle, its threads
  are decided from the entries that were fetched and its identifiers stored, and
  processing proceeds with the next page.
\<close>

theorem page_fetch_failure_absorbed:
  "(follows (comments_list w pageId) None rs \<longrightarrow>
      getCommentsForBlock w pageId = Some (concat (map results rs))
      \<and> getAllCommentsForPage w pageId
          = (case getPageBlocks w pageId of
               None \<Rightarrow> None
             | Some blocks \<Rightarrow>
                 inline_comments_loop w blocks (page_entries (concat (map results rs)))))
   \<and> (follows (blocks_children_list w pageId) None rs' \<longrightarrow>
      getPageBlocks w pageId = Some (concat (map results rs'))
      \<and> getAllCommentsForPage w pageId
          = (case getCommentsForBlock w pageId of
               None \<Rightarrow> None
             | Some pageComments \<Rightarrow>
                 inline_comments_loop w (concat (map results rs')) (page_entries pageComments)))
   \<and> (getAllCommentsForPage w pageId = Some es \<longrightarrow>
      (\<exists>st' evs.
          page_step w config uid pageId (st, tr) = Some (st', tr @ evs)
        \<and> evs = fst (snd (page_threads w config uid pageId es (processed_ids st pageId)))
        \<and> processed_ids st' pageId
            = fst (page_threads w config uid pageId es (processed_ids st pageId))
        \<and> pages_loop w config uid (pageId # rest) (st, tr)
            = pages_loop w config uid rest (st', tr @ evs)))"
proof -
  have 1: "follows (comments_list w pageId) None rs \<Longrightarrow>
      getCommentsForBlock w pageId = Some (concat (map results rs))"
    using getCommentsForBlock_loop_partial[of w pageId None rs "[]"]
    by (simp add: getCommentsForBlock_def)
  have 2: "follows (blocks_children_list w pageId) None rs' \<Longrightarrow>
      getPageBlocks w pageId = Some (concat (map results rs'))"
    using getPageBlocks_loop_partial[of w pageId None rs' "[]"]
    by (simp add: getPageBlocks_def)
  have 3: "getAllCommentsForPage w pageId = Some es \<Longrightarrow>
      (\<exists>st' evs.
          page_step w config uid pageId (st, tr) = Some (st', tr @ evs)
        \<and> evs = fst (snd (page_threads w config uid pageId es (processed_ids st pageId)))
        \<and> processed_ids st' pageId
            = fst (page_threads w config uid pageId es (processed_ids st pageId))
        \<and> pages_loop w config uid (pageId # rest) (st, tr)
            = pages_loop w config uid rest (st', tr @ evs))"
    using page_step_result[of w pageId es config uid st tr]
    by (simp add: processed_ids_def)
  show ?thesis
    using 1 2 3
    by (auto simp: getAllCommentsForPage_def page_entries_def split: option.splits)
qed

theorem page_fetch_failure_absorbed_witness:
  "isl (comments_list inline_only_world (js ''P'') None)
   \<and> getCommentsForBlock inline_only_world (js ''P'') = Some []
   \<and> getAllCommentsForPage inline_only_world (js ''P'')
       = Some [\<lparr>comment = mk_comment ''c2'' ''d2'' 2000 ''hi'' ''u1'',
                quote = Some (js ''Revenue grew 12%'')\<rparr>]
   \<and> isl (blocks_children_list (demo_world\<lparr>blocks_children_list := (\<lambda>b cursor. Inl down)\<rparr>)
            (js ''P'') None)
   \<and> getPageBlocks (demo_world\<lparr>blocks_children_list := (\<lambda>b cursor. Inl down)\<rparr>) (js ''P'')
       = Some []"
proof -
  let ?w = "demo_world\<lparr>blocks_children_list := (\<lambda>b cursor. Inl down)\<rparr>"
  have b: "isl (blocks_children_list ?w (js ''P'') None)" by simp
  note i1 = page_fetch_failure_absorbed[of inline_only_world "js ''P''" "[]" "[]"
      "[\<lparr>comment = mk_comment ''c2'' ''d2'' 2000 ''hi'' ''u1'',
         quote = Some (js ''Revenue grew 12%'')\<rparr>]" demo_config None
      "\<lparr>lastPollTime = 0, processedComments = Map.empty\<rparr>" "[]" "[]"]
  note i2 = page_fetch_failure_absorbed[of ?w "js ''P''" "[]" "[]" "[]" demo_config None
      "\<lparr>lastPollTime = 0, processedComments = Map.empty\<rparr>" "[]" "[]"]
  from i1 inline_only_world_fetch(1)
  have c: "getCommentsForBlock inline_only_world (js ''P'') = Some []" by simp
  from i2 b have p: "getPageBlocks ?w (js ''P'') = Some []" by simp
  from inline_only_world_fetch(1) c inline_only_world_entries b p show ?thesis by blast
qed

section \<open>The claims about the poll cycle and its state\<close>

lemma page_step_entries:
  assumes "page_step w config uid pageId (st, tr) = Some r"
  obtains es where "getAllCommentsForPage w pageId = Some es"
  using assms by (auto simp: page_step_def split: option.splits)

lemma page_threads_grows:
  "set ids \<subseteq> set (fst (page_threads w config uid pageId es ids))"
  unfolding page_threads_def by (rule threads_loop_grows)

lemma page_step_grows:
  assumes "page_step w config uid pageId (st, tr) = Some (st', tr')"
  shows "set (processed_ids st q) \<subseteq> set (processed_ids st' q)"
    and "lastPollTime st' = lastPollTime st"
    and "processedComments st q \<noteq> None \<Longrightarrow> processedComments st' q \<noteq> None"
proof -
  from assms obtain es where es: "getAllCommentsForPage w pageId = Some es"
    by (rule page_step_entries)
  note r = page_step_result[OF es, of config uid st tr]
  from r assms have st': "st' = st\<lparr>processedComments :=
                (processedComments st)(pageId \<mapsto>
                   fst (page_threads w config uid pageId es (processed_ids st pageId)))\<rparr>"
    by simp
  show "set (processed_ids st q) \<subseteq> set (processed_ids st' q)"
    using page_threads_grows[of "processed_ids st pageId" w config uid pageId es]
    by (cases "q = pageId") (simp_all add: st' processed_ids_def)
  show "lastPollTime st' = lastPollTime st" by (simp add: st')
  show "processedComments st q \<noteq> None \<Longrightarrow> processedComments st' q \<noteq> None"
    by (simp add: st')
qed

lemma pages_loop_grows:
  assumes "pages_loop w config uid ps (st, tr) = Some (st', tr')"
  shows "set (processed_ids st q) \<subseteq> set (processed_ids st' q) \<and> lastPollTime st' = lastPollTime st"
  using assms
proof (induction ps arbitrary: st tr)
  case Nil
  then show ?case by simp
next
  case (Cons p ps)
  from Cons.prems obtain st1 tr1 where 1: "page_step w config uid p (st, tr) = Some (st1, tr1)"
    and 2: "pages_loop w config uid ps (st1, tr1) = Some (st', tr')"
    by (auto split: option.splits)
  from page_step_grows(1)[OF 1, of q] page_step_grows(2)[OF 1] Cons.IH[OF 2]
  show ?case by auto
qed

lemma poll_unfold:
  assumes "enabled config" "index_pages w config = Some (Inr fromIndex)"
  shows "pollNotionComments w config uid now file =
     (if watched_pages config fromIndex = [] then Some (Inr (file, []))
      else (case pages_loop w config uid (watched_pages config fromIndex) (loadState file, []) of
              None \<Rightarrow> None
            | Some (st, evs) \<Rightarrow> Some (Inr (Some (st\<lparr>lastPollTime := now\<rparr>), evs))))"
  using assms
  by (auto simp: pollNotionComments_def Let_def index_pages_def watched_pages_def saveState_def
      split: option.splits)

lemma demo_thread_step_ids:
  assumes "pages_retrieve w = pages_retrieve demo_world"
    "chat_completions w = chat_completions demo_world" "process_env w = process_env demo_world"
    and "js i \<notin> set ids"
  shows "thread_step w demo_config None (js ''P'') quoteMap (js d)
           [mk_comment i d t ''hi'' a] ids
         = Inr (if replyToComment w (js d) (js ''ok'') then ids @ [js i] else ids,
                [Responder (js d) (js ''hi'') None (quoteMap (js d)),
                 ReplyPost (js d) (js ''ok'') (replyToComment w (js d) (js ''ok''))])"
proof -
  let ?c = "mk_comment i d t ''hi'' a"
  have x: "extractTextFromComment ?c = js ''hi''" "comment_id ?c = js i"
    by (simp_all add: extractTextFromComment_def plain_texts_def mk_comment_def)
  have tr: "trim (js ''hi'') \<noteq> []" by (simp add: trim_def js_def is_ws_def)
  have t: "getPageTitle w (js ''P'') = None"
    using assms(1) by (simp add: getPageTitle_def demo_world_def)
  have a: "answer_text w demo_config (js ''P'') quoteMap (js d) ?c = js ''ok''"
    using assms(2,3)
    by (simp add: answer_text_def processCommentWithAgent_def callAI_def Let_def demo_config_def
      demo_world_def callChatCompletions_def or_default_def getEnv_def x) (simp add: js_def)
  show ?thesis
    using assms(4)
    by (simp add: thread_step_cases x tr t a bot_authored_def truthy_def answer_events_def)
qed

lemma one_comment_entries:
  assumes "comments_list w = comments_list one_comment_world"
    "blocks_children_list w = blocks_children_list one_comment_world"
  shows "getAllCommentsForPage w (js ''P'')
     = Some [\<lparr>comment = mk_comment ''c1'' ''d1'' 1000 ''hi'' ''u1'', quote = None\<rparr>]"
proof -
  have c: "getCommentsForBlock w (js ''P'') = Some [mk_comment ''c1'' ''d1'' 1000 ''hi'' ''u1'']"
    using getCommentsForBlock_single[of w "js ''P''"
        "single_page [mk_comment ''c1'' ''d1'' 1000 ''hi'' ''u1'']"] assms(1)
    by (simp add: one_comment_world_def demo_world_def single_page_def truthy_def)
  have b: "getPageBlocks w (js ''P'') = Some []"
    using getPageBlocks_single[of w "js ''P''" "single_page []"] assms(2)
    by (simp add: one_comment_world_def demo_world_def single_page_def truthy_def)
  show ?thesis by (simp add: getAllCommentsForPage_def c b)
qed

lemma one_comment_poll:
  assumes "comments_list w = comments_list one_comment_world"
    "blocks_children_list w = blocks_children_list one_comment_world"
    "pages_retrieve w = pages_retrieve demo_world"
    "chat_completions w = chat_completions demo_world" "process_env w = process_env demo_world"
    and "js ''c1'' \<notin> set (processed_ids (loadState file) (js ''P''))"
  shows "pollNotionComments w demo_config None now file =
     Some (Inr (Some \<lparr>lastPollTime = now,
                       processedComments = (processedComments (loadState file))(js ''P'' \<mapsto>
                          (if replyToComment w (js ''d1'') (js ''ok'')
                           then processed_ids (loadState file) (js ''P'') @ [js ''c1'']
                           else processed_ids (loadState file) (js ''P'')))\<rparr>,
                [Responder (js ''d1'') (js ''hi'') None None,
                 ReplyPost (js ''d1'') (js ''ok'') (replyToComment w (js ''d1'') (js ''ok''))]))"
proof -
  let ?c = "mk_comment ''c1'' ''d1'' 1000 ''hi'' ''u1''"
  have g: "groupByDiscussion [?c] = [(js ''d1'', [?c])]"
    by (simp add: groupByDiscussion_def mk_comment_def)
  have q: "buildQuoteMap [\<lparr>comment = ?c, quote = None\<rparr>] = Map.empty"
    by (simp add: buildQuoteMap_def)
  show ?thesis
    using demo_thread_step_ids[OF assms(3,4,5,6), of Map.empty "''d1''" 1000 "''u1''"]
    by (subst poll_single_page[OF _ _ _ one_comment_entries[OF assms(1,2)]])
       (simp_all add: demo_config_def truthy_def page_threads_def g q)
qed

lemma stale_clock_poll:
  "pollNotionComments one_comment_world demo_config None 1
      (Some \<lparr>lastPollTime = 3, processedComments = [js ''P'' \<mapsto> [js ''c0'']]\<rparr>)
     = Some (Inr (Some \<lparr>lastPollTime = 1,
                         processedComments = [js ''P'' \<mapsto> [js ''c0'', js ''c1'']]\<rparr>,
                  [Responder (js ''d1'') (js ''hi'') None None,
                   ReplyPost (js ''d1'') (js ''ok'') True]))"
proof -
  let ?f = "Some \<lparr>lastPollTime = 3, processedComments = [js ''P'' \<mapsto> [js ''c0'']]\<rparr>"
  have n: "js ''c1'' \<notin> set (processed_ids (loadState ?f) (js ''P''))"
    by (simp add: loadState_def processed_ids_def js_def)
  have r: "replyToComment one_comment_world (js ''d1'') (js ''ok'')"
    by (simp add: replyToComment_def one_comment_world_def demo_world_def)
  show ?thesis
    by (subst one_comment_poll[OF _ _ _ _ _ n])
       (simp_all add: one_comment_world_def r[unfolded one_comment_world_def]
          loadState_def processed_ids_def)
qed

text \<open>
  Claim C7, as stated: \<open>lastPollTime\<close> never decreases. It fails when the clock reads
  earlier than the stored value: the cycle writes the clock reading whatever the state
  holds. Below, the state holds 3, the clock reads 1, and the cycle persists 1.
\<close>

theorem clock_set_back_counterexample:
  "pollNotionComments one_comment_world demo_config None 1
      (Some \<lparr>lastPollTime = 3, processedComments = [js ''P'' \<mapsto> [js ''c0'']]\<rparr>)
     = Some (Inr (Some \<lparr>lastPollTime = 1,
                         processedComments = [js ''P'' \<mapsto> [js ''c0'', js ''c1'']]\<rparr>,
                  [Responder (js ''d1'') (js ''hi'') None None,
                   ReplyPost (js ''d1'') (js ''ok'') True]))
   \<and> lastPollTime (loadState (Some \<lparr>lastPollTime = 1,
                         processedComments = [js ''P'' \<mapsto> [js ''c0'', js ''c1'']]\<rparr>))
       < lastPollTime (loadState (Some \<lparr>lastPollTime = 3,
                         processedComments = [js ''P'' \<mapsto> [js ''c0'']]\<rparr>))"
  using stale_clock_poll by (simp add: loadState_def)

text \<open>
  Claim C7, amended. The processed identifiers only grow. A poll cycle that completes
  leaves, for every page, every identifier that the loaded state held in the persisted
  state; so does every round of the loop over the pages, on the state in memory, and
  every thread decision, on \<open>processedIds\<close>: no operation removes an identifier.
  \<open>lastPollTime\<close> is not compared with anything: a cycle with no page to visit leaves
  the state file as it is, and every other cycle sets \<open>lastPollTime\<close> to the clock
  reading at its end, so it does not decrease exactly as long as the clock does not read
  earlier than the stored value.
\<close>

theorem processed_ids_only_grow:
  assumes "pollNotionComments w config uid now file = Some (Inr (file', evs))"
  shows "(\<forall>q. set (processed_ids (loadState file) q) \<subseteq> set (processed_ids (loadState file') q))
       \<and> (cycle_pages w config = [] \<longrightarrow> file' = file)
       \<and> (cycle_pages w config \<noteq> [] \<longrightarrow> lastPollTime (loadState file') = now)
       \<and> (lastPollTime (loadState file) \<le> now \<longrightarrow>
            lastPollTime (loadState file) \<le> lastPollTime (loadState file'))
       \<and> (\<forall>pageId st tr st' tr' q.
            page_step w config uid pageId (st, tr) = Some (st', tr') \<longrightarrow>
            set (processed_ids st q) \<subseteq> set (processed_ids st' q))
       \<and> (\<forall>pageId quoteMap d cs ids ids' new.
            thread_step w config uid pageId quoteMap d cs ids = Inr (ids', new) \<longrightarrow>
            set ids \<subseteq> set ids')"
proof -
  have main: "(\<forall>q. set (processed_ids (loadState file) q) \<subseteq> set (processed_ids (loadState file') q))
       \<and> (cycle_pages w config = [] \<longrightarrow> file' = file)
       \<and> (cycle_pages w config \<noteq> [] \<longrightarrow> lastPollTime (loadState file') = now)"
  proof (cases "enabled config")
    case False
    with assms show ?thesis by (simp add: pollNotionComments_def cycle_pages_def)
  next
    case True
    from assms True obtain fromIndex where fi: "index_pages w config = Some (Inr fromIndex)"
      by (auto simp: pollNotionComments_def index_pages_def split: option.splits sum.splits)
    have cp: "cycle_pages w config = watched_pages config fromIndex"
      by (simp add: cycle_pages_def True fi)
    note run = poll_unfold[OF True fi, of uid now]
    show ?thesis
    proof (cases "watched_pages config fromIndex = []")
      case True
      with assms run show ?thesis by (simp add: cp)
    next
      case False
      with assms run obtain st
        where l: "pages_loop w config uid (watched_pages config fromIndex) (loadState file, [])
                    = Some (st, evs)"
          and f: "file' = Some (st\<lparr>lastPollTime := now\<rparr>)"
        by (auto split: option.splits)
      from pages_loop_grows[OF l] False show ?thesis
        by (simp add: f cp loadState_def processed_ids_def)
    qed
  qed
  then have clock: "lastPollTime (loadState file) \<le> now \<longrightarrow>
            lastPollTime (loadState file) \<le> lastPollTime (loadState file')"
    by (cases "cycle_pages w config = []") auto
  have p: "\<forall>pageId st tr st' tr' q.
            page_step w config uid pageId (st, tr) = Some (st', tr') \<longrightarrow>
            set (processed_ids st q) \<subseteq> set (processed_ids st' q)"
    by (intro allI impI) (rule page_step_grows(1))
  have t: "\<forall>pageId quoteMap d cs ids ids' new.
            thread_step w config uid pageId quoteMap d cs ids = Inr (ids', new) \<longrightarrow>
            set ids \<subseteq> set ids'"
    by (intro allI impI) (rule thread_step_grows)
  from main clock p t show ?thesis by blast
qed

theorem processed_ids_only_grow_witness:
  "pollNotionComments one_comment_world demo_config None 5
      (Some \<lparr>lastPollTime = 3, processedComments = [js ''P'' \<mapsto> [js ''c0'']]\<rparr>)
     = Some (Inr (Some \<lparr>lastPollTime = 5,
                         processedComments = [js ''P'' \<mapsto> [js ''c0'', js ''c1'']]\<rparr>,
                  [Responder (js ''d1'') (js ''hi'') None None,
                   ReplyPost (js ''d1'') (js ''ok'') True]))
   \<and> set (processed_ids \<lparr>lastPollTime = 3, processedComments = [js ''P'' \<mapsto> [js ''c0'']]\<rparr>
             (js ''P''))
       \<subseteq> set (processed_ids
             \<lparr>lastPollTime = 5, processedComments = [js ''P'' \<mapsto> [js ''c0'', js ''c1'']]\<rparr>
             (js ''P''))
   \<and> cycle_pages one_comment_world demo_config \<noteq> []
   \<and> lastPollTime (loadState (Some \<lparr>lastPollTime = 5,
                         processedComments = [js ''P'' \<mapsto> [js ''c0'', js ''c1'']]\<rparr>)) = 5
   \<and> pollNotionComments one_comment_world (demo_config\<lparr>watchedPages := []\<rparr>) None 5
        (Some \<lparr>lastPollTime = 3, processedComments = [js ''P'' \<mapsto> [js ''c0'']]\<rparr>)
     = Some (Inr (Some \<lparr>lastPollTime = 3, processedComments = [js ''P'' \<mapsto> [js ''c0'']]\<rparr>, []))
   \<and> cycle_pages one_comment_world (demo_config\<lparr>watchedPages := []\<rparr>) = []"
proof -
  let ?f = "Some \<lparr>lastPollTime = 3, processedComments = [js ''P'' \<mapsto> [js ''c0'']]\<rparr>"
  let ?g = "Some \<lparr>lastPollTime = 5, processedComments = [js ''P'' \<mapsto> [js ''c0'', js ''c1'']]\<rparr>"
  have n: "js ''c1'' \<notin> set (processed_ids (loadState ?f) (js ''P''))"
    by (simp add: loadState_def processed_ids_def js_def)
  have r: "replyToComment one_comment_world (js ''d1'') (js ''ok'')"
    by (simp add: replyToComment_def one_comment_world_def demo_world_def)
  have p: "pollNotionComments one_comment_world demo_config None 5 ?f
     = Some (Inr (?g, [Responder (js ''d1'') (js ''hi'') None None,
                       ReplyPost (js ''d1'') (js ''ok'') True]))"
    by (subst one_comment_poll[OF _ _ _ _ _ n])
       (simp_all add: one_comment_world_def r[unfolded one_comment_world_def]
          loadState_def processed_ids_def)
  have cp: "cycle_pages one_comment_world demo_config \<noteq> []"
    by (simp add: cycle_pages_def index_pages_def watched_pages_def demo_config_def truthy_def)
  have p0: "pollNotionComments one_comment_world (demo_config\<lparr>watchedPages := []\<rparr>) None 5 ?f
     = Some (Inr (?f, []))"
    by (simp add: pollNotionComments_def demo_config_def truthy_def)
  have cp0: "cycle_pages one_comment_world (demo_config\<lparr>watchedPages := []\<rparr>) = []"
    by (simp add: cycle_pages_def index_pages_def watched_pages_def demo_config_def truthy_def)
  note inst = processed_ids_only_grow[OF p]
  from inst have a: "set (processed_ids (loadState ?f) (js ''P''))
       \<subseteq> set (processed_ids (loadState ?g) (js ''P''))" by blast
  from inst cp have b: "lastPollTime (loadState ?g) = 5" by blast
  from a b cp p p0 cp0 show ?thesis by (simp add: loadState_def)
qed




lemma page_settled_lastPollTime [simp]:
  "page_settled w (st\<lparr>lastPollTime := n\<rparr>) pageId = page_settled w st pageId"
  by (simp add: page_settled_def processed_ids_def split: option.splits)

















section \<open>The claim about the latest comment of a thread\<close>

lemma pages_loop_visits:
  assumes "pages_loop w config uid ps (st, tr) = Some (st', tr')"
  shows "tr' = tr @ snd (visit_pages w config uid ps (processedComments st))
       \<and> processedComments st' = fst (visit_pages w config uid ps (processedComments st))"
  using assms
proof (induction ps arbitrary: st tr)
  case Nil
  then show ?case by simp
next
  case (Cons p ps)
  from Cons.prems obtain st1 tr1 where 1: "page_step w config uid p (st, tr) = Some (st1, tr1)"
    and 2: "pages_loop w config uid ps (st1, tr1) = Some (st', tr')"
    by (auto split: option.splits)
  from 1 obtain es where es: "getAllCommentsForPage w p = Some es" by (rule page_step_entries)
  let ?r = "visit_page w config uid p es (processed_ids st p)"
  from page_step_result[OF es, of config uid st tr] 1
  have st1: "st1 = st\<lparr>processedComments := (processedComments st)(p \<mapsto> fst ?r)\<rparr>"
    and tr1: "tr1 = tr @ snd ?r"
    by (simp_all add: page_threads_visit)
  have pc1: "processedComments st1 = (processedComments st)(p \<mapsto> fst ?r)"
    unfolding st1 by simp
  have v: "visit_pages w config uid (p # ps) (processedComments st) =
      (fst (visit_pages w config uid ps ((processedComments st)(p \<mapsto> fst ?r))),
       snd ?r @ snd (visit_pages w config uid ps ((processedComments st)(p \<mapsto> fst ?r))))"
    by (simp only: visit_pages.simps es option.case Let_def processed_ids_def)
  from Cons.IH[OF 2]
  have a: "tr' = tr1 @ snd (visit_pages w config uid ps ((processedComments st)(p \<mapsto> fst ?r)))"
    and b: "processedComments st'
              = fst (visit_pages w config uid ps ((processedComments st)(p \<mapsto> fst ?r)))"
    by (simp_all only: pc1)
  show ?case
    by (simp only: v a b tr1 fst_conv snd_conv append_assoc simp_thms)
qed

lemma visit_pages_counts:
  "responder_calls d (snd (visit_pages w config uid ps pc)) \<le> length (filter (carries w d) ps)
   \<and> reply_posts d (snd (visit_pages w config uid ps pc)) \<le> length (filter (carries w d) ps)"
proof (induction ps arbitrary: pc)
  case Nil
  then show ?case by (simp add: responder_calls_def reply_posts_def)
next
  case (Cons p ps)
  show ?case
  proof (cases "getAllCommentsForPage w p")
    case None
    then show ?thesis by (simp add: responder_calls_def reply_posts_def)
  next
    case (Some es)
    let ?ids = "case pc p of None \<Rightarrow> [] | Some ids \<Rightarrow> ids"
    let ?r = "visit_page w config uid p es ?ids"
    let ?rest = "snd (visit_pages w config uid ps (pc(p \<mapsto> fst ?r)))"
    have v: "snd (visit_pages w config uid (p # ps) pc) = snd ?r @ ?rest"
      by (simp only: visit_pages.simps Some option.case Let_def snd_conv)
    have f: "length (filter (carries w d) (p # ps))
        = (if d \<in> set (map (\<lambda>e. discussion_id (comment e)) es) then 1 else 0)
          + length (filter (carries w d) ps)"
      by (simp add: carries_def Some)
    note c = visit_page_counts[of d w config uid p es ?ids]
    from Cons.IH[of "pc(p \<mapsto> fst ?r)"]
    have IH: "responder_calls d ?rest \<le> length (filter (carries w d) ps)"
      "reply_posts d ?rest \<le> length (filter (carries w d) ps)" by blast+
    from c IH show ?thesis
      unfolding v f responder_calls_append reply_posts_append by linarith
  qed
qed

lemma visit_pages_pairs:
  "reply_posts d (snd (visit_pages w config uid ps pc))
     = responder_calls d (snd (visit_pages w config uid ps pc))"
proof (induction ps arbitrary: pc)
  case Nil
  then show ?case by (simp add: responder_calls_def reply_posts_def)
next
  case (Cons p ps)
  show ?case
  proof (cases "getAllCommentsForPage w p")
    case None
    then show ?thesis by (simp add: responder_calls_def reply_posts_def)
  next
    case (Some es)
    let ?r = "visit_page w config uid p es (case pc p of None \<Rightarrow> [] | Some ids \<Rightarrow> ids)"
    have v: "snd (visit_pages w config uid (p # ps) pc)
        = snd ?r @ snd (visit_pages w config uid ps (pc(p \<mapsto> fst ?r)))"
      by (simp only: visit_pages.simps Some option.case Let_def snd_conv)
    show ?thesis
      unfolding v responder_calls_append reply_posts_append
      by (simp only: Cons.IH visit_page_def decide_threads_pairs)
  qed
qed

lemma poll_visits:
  assumes "pollNotionComments w config uid now file = Some (Inr (file', evs))"
  shows "evs = snd (visit_pages w config uid (cycle_pages w config) (processedComments (loadState file)))"
proof (cases "enabled config")
  case False
  with assms show ?thesis by (simp add: pollNotionComments_def cycle_pages_def)
next
  case True
  from assms True obtain fromIndex where fi: "index_pages w config = Some (Inr fromIndex)"
    by (auto simp: pollNotionComments_def index_pages_def split: option.splits sum.splits)
  have cp: "cycle_pages w config = watched_pages config fromIndex"
    by (simp add: cycle_pages_def True fi)
  note run = poll_unfold[OF True fi, of uid now]
  show ?thesis
  proof (cases "watched_pages config fromIndex = []")
    case True
    with assms run show ?thesis by (simp add: cp)
  next
    case False
    with assms run obtain st
      where l: "pages_loop w config uid (watched_pages config fromIndex) (loadState file, []) = Some (st, evs)"
      by (auto split: option.splits)
    from pages_loop_visits[OF l] show ?thesis by (simp add: cp)
  qed
qed

lemma twice_poll:
  "pollNotionComments failing_post_world twice_config None 7 None
     = Some (Inr (Some \<lparr>lastPollTime = 7, processedComments = [js ''P'' \<mapsto> []]\<rparr>,
                  [Responder (js ''d1'') (js ''hi'') None None,
                   ReplyPost (js ''d1'') (js ''ok'') False,
                   Responder (js ''d1'') (js ''hi'') None None,
                   ReplyPost (js ''d1'') (js ''ok'') False]))"
proof -
  let ?c = "mk_comment ''c1'' ''d1'' 1000 ''hi'' ''u1''"
  let ?w = failing_post_world
  have en: "enabled twice_config" by (simp add: twice_config_def demo_config_def)
  have fi: "index_pages ?w twice_config = Some (Inr [])"
    by (simp add: index_pages_def twice_config_def demo_config_def truthy_def)
  have wp: "watched_pages twice_config [] = [js ''P'', js ''P'']"
    by (simp add: watched_pages_def twice_config_def)
  have es: "getAllCommentsForPage ?w (js ''P'') = Some [\<lparr>comment = ?c, quote = None\<rparr>]"
    by (rule one_comment_entries) (simp_all add: failing_post_world_def)
  have g: "groupByDiscussion [?c] = [(js ''d1'', [?c])]"
    by (simp add: groupByDiscussion_def mk_comment_def)
  have q: "buildQuoteMap [\<lparr>comment = ?c, quote = None\<rparr>] = Map.empty"
    by (simp add: buildQuoteMap_def)
  have rf: "\<not> replyToComment ?w (js ''d1'') (js ''ok'')"
    by (simp add: replyToComment_def failing_post_world_def)
  have ts: "thread_step ?w twice_config None (js ''P'') Map.empty (js ''d1'') [?c] []
      = Inr ([], [Responder (js ''d1'') (js ''hi'') None None,
                  ReplyPost (js ''d1'') (js ''ok'') False])"
  proof -
    have x: "extractTextFromComment ?c = js ''hi''" "comment_id ?c = js ''c1''"
      by (simp_all add: extractTextFromComment_def plain_texts_def mk_comment_def)
    have tr: "trim (js ''hi'') \<noteq> []" by (simp add: trim_def js_def is_ws_def)
    have t: "getPageTitle ?w (js ''P'') = None"
      by (simp add: getPageTitle_def failing_post_world_def one_comment_world_def demo_world_def)
    have a: "answer_text ?w twice_config (js ''P'') Map.empty (js ''d1'') ?c = js ''ok''"
      by (simp add: answer_text_def processCommentWithAgent_def callAI_def Let_def twice_config_def
          demo_config_def failing_post_world_def one_comment_world_def demo_world_def
          callChatCompletions_def or_default_def getEnv_def x) (simp add: js_def)
    show ?thesis
      by (simp add: thread_step_cases x tr t a rf bot_authored_def truthy_def answer_events_def)
  qed
  have pt: "page_threads ?w twice_config None (js ''P'') [\<lparr>comment = ?c, quote = None\<rparr>] []
      = ([], [Responder (js ''d1'') (js ''hi'') None None,
              ReplyPost (js ''d1'') (js ''ok'') False], None)"
    by (simp add: page_threads_def g q ts)
  have ps: "page_step ?w twice_config None (js ''P'') (st, tr) =
      Some (st\<lparr>processedComments := (processedComments st)(js ''P'' \<mapsto> [])\<rparr>,
            tr @ [Responder (js ''d1'') (js ''hi'') None None,
                  ReplyPost (js ''d1'') (js ''ok'') False])"
    if "processed_ids st (js ''P'') = []" for st tr
    using that by (simp add: page_step_result[OF es] pt)
  have p0: "processed_ids (loadState None) (js ''P'') = []"
    by (simp add: processed_ids_def loadState_def)
  have p1: "processed_ids ((loadState None)\<lparr>processedComments :=
      (processedComments (loadState None))(js ''P'' \<mapsto> [])\<rparr>) (js ''P'') = []"
    by (simp add: processed_ids_def)
  show ?thesis
    by (simp add: poll_unfold[OF en fi] wp ps[OF p0] ps[OF p1]) (simp add: loadState_def)
qed

lemma twice_counts:
  "responder_calls (js ''d1'')
     [Responder (js ''d1'') (js ''hi'') None None, ReplyPost (js ''d1'') (js ''ok'') False,
      Responder (js ''d1'') (js ''hi'') None None, ReplyPost (js ''d1'') (js ''ok'') False] = 2
   \<and> reply_posts (js ''d1'')
     [Responder (js ''d1'') (js ''hi'') None None, ReplyPost (js ''d1'') (js ''ok'') False,
      Responder (js ''d1'') (js ''hi'') None None, ReplyPost (js ''d1'') (js ''ok'') False] = 2"
  by (simp add: responder_calls_def reply_posts_def)

lemma thread_world_entries:
  "getAllCommentsForPage thread_world (js ''P'') = Some (page_entries demo_comments)"
proof -
  have c: "getCommentsForBlock thread_world (js ''P'') = Some demo_comments"
    using getCommentsForBlock_single[of thread_world "js ''P''" "single_page demo_comments"]
    by (simp add: thread_world_def demo_world_def single_page_def truthy_def)
  have b: "getPageBlocks thread_world (js ''P'') = Some []"
    using getPageBlocks_single[of thread_world "js ''P''" "single_page []"]
    by (simp add: thread_world_def demo_world_def single_page_def truthy_def)
  show ?thesis by (simp add: getAllCommentsForPage_def c b page_entries_def)
qed

lemma demo_groups:
  "groupByDiscussion demo_comments =
     [(js ''d1'', [mk_comment ''c1'' ''d1'' 1000 ''hi'' ''u1'',
                   mk_comment ''c3'' ''d1'' 2000 ''more'' ''u1'',
                   mk_comment ''c4'' ''d1'' 2000 ''tie'' ''u1'']),
      (js ''d2'', [mk_comment ''c2'' ''d2'' 500 ''  '' ''u2''])]"
  by (simp add: groupByDiscussion_def demo_comments_def mk_comment_def js_def)

lemma demo_latest:
  "latestComment [mk_comment ''c1'' ''d1'' 1000 ''hi'' ''u1'',
                  mk_comment ''c3'' ''d1'' 2000 ''more'' ''u1'',
                  mk_comment ''c4'' ''d1'' 2000 ''tie'' ''u1'']
     = mk_comment ''c4'' ''d1'' 2000 ''tie'' ''u1''"
  by (simp add: latestComment_def sortByTime_def mk_comment_def)

lemma thread_world_poll:
  "pollNotionComments thread_world demo_config None 7 None
     = Some (Inr (Some \<lparr>lastPollTime = 7,
                         processedComments = [js ''P'' \<mapsto> [js ''c4'', js ''c2'']]\<rparr>,
                  [Responder (js ''d1'') (js ''tie'') None None,
                   ReplyPost (js ''d1'') (js ''ok'') True]))"
proof -
  let ?cs = "[mk_comment ''c1'' ''d1'' 1000 ''hi'' ''u1'',
              mk_comment ''c3'' ''d1'' 2000 ''more'' ''u1'',
              mk_comment ''c4'' ''d1'' 2000 ''tie'' ''u1'']"
  let ?c = "mk_comment ''c4'' ''d1'' 2000 ''tie'' ''u1''"
  let ?b = "mk_comment ''c2'' ''d2'' 500 ''  '' ''u2''"
  have m: "map comment (page_entries demo_comments) = demo_comments"
    by (simp add: page_entries_def comp_def)
  have q: "buildQuoteMap (page_entries demo_comments) = Map.empty"
    by (simp add: buildQuoteMap_def page_entries_def demo_comments_def)
  have x: "extractTextFromComment ?c = js ''tie''" "comment_id ?c = js ''c4''"
    "extractTextFromComment ?b = js ''  ''" "comment_id ?b = js ''c2''"
    by (simp_all add: extractTextFromComment_def plain_texts_def mk_comment_def)
  have tr: "trim (js ''tie'') \<noteq> []" "trim (js ''  '') = []" "js ''c2'' \<noteq> js ''c4''"
    by (simp_all add: trim_def js_def is_ws_def)
  have t: "getPageTitle thread_world (js ''P'') = None"
    by (simp add: getPageTitle_def thread_world_def demo_world_def)
  have a: "answer_text thread_world demo_config (js ''P'') Map.empty (js ''d1'') ?c = js ''ok''"
    by (simp add: answer_text_def processCommentWithAgent_def callAI_def Let_def demo_config_def
      thread_world_def demo_world_def callChatCompletions_def or_default_def getEnv_def js_def)
  have r: "replyToComment thread_world (js ''d1'') (js ''ok'')"
    by (simp add: replyToComment_def thread_world_def demo_world_def)
  have s1: "thread_step thread_world demo_config None (js ''P'') Map.empty (js ''d1'') ?cs []
       = Inr ([js ''c4''],
              [Responder (js ''d1'') (js ''tie'') None None, ReplyPost (js ''d1'') (js ''ok'') True])"
    by (simp add: thread_step_cases demo_latest x tr t a r answer_events_def bot_authored_def truthy_def)
  have s2: "thread_step thread_world demo_config None (js ''P'') Map.empty (js ''d2'') [?b] [js ''c4'']
       = Inr ([js ''c4'', js ''c2''], [])"
    by (simp add: thread_step_cases x tr bot_authored_def truthy_def)
  show ?thesis
    by (subst poll_single_page[OF _ _ _ thread_world_entries])
       (simp_all add: demo_config_def[symmetric] page_threads_def m q demo_groups s1 s2
          loadState_def processed_ids_def,
        simp_all add: demo_config_def truthy_def)
qed

text \<open>
  Claim C1, as stated: at most one answer attempt per thread per cycle. It fails when
  the configured watch list names a page twice: the cycle visits the page twice, and
  when the reply post of the first visit fails the thread is answered again in the
  second. Below, one cycle makes two responder calls and two reply posts for the
  discussion \<open>d1\<close>.
\<close>

theorem duplicate_page_counterexample:
  "pollNotionComments failing_post_world twice_config None 7 None
     = Some (Inr (Some \<lparr>lastPollTime = 7, processedComments = [js ''P'' \<mapsto> []]\<rparr>,
                  [Responder (js ''d1'') (js ''hi'') None None,
                   ReplyPost (js ''d1'') (js ''ok'') False,
                   Responder (js ''d1'') (js ''hi'') None None,
                   ReplyPost (js ''d1'') (js ''ok'') False]))
   \<and> responder_calls (js ''d1'')
        [Responder (js ''d1'') (js ''hi'') None None, ReplyPost (js ''d1'') (js ''ok'') False,
         Responder (js ''d1'') (js ''hi'') None None, ReplyPost (js ''d1'') (js ''ok'') False] = 2
   \<and> reply_posts (js ''d1'')
        [Responder (js ''d1'') (js ''hi'') None None, ReplyPost (js ''d1'') (js ''ok'') False,
         Responder (js ''d1'') (js ''hi'') None None, ReplyPost (js ''d1'') (js ''ok'') False] = 2"
  using twice_poll twice_counts by blast

text \<open>
  Claim C1, amended. For every thread \<open>(d, cs)\<close> that \<open>groupByDiscussion\<close> forms from
  the comments of a page: the thread holds the comments of discussion \<open>d\<close> in their
  original order and is not empty; its latest comment, the last one after the stable
  ascending sort by creation time, has the greatest creation time and is, among the
  comments with that time, the last in the original order; the thread is decided as the
  thread holding only that latest comment would be, so earlier comments play no part;
  the decision is: nothing when the latest identifier is already processed, else a skip
  that marks it processed when the latest comment is the bot's own, else the same when
  its trimmed text is empty, else one answer attempt (one responder call and one reply
  post, marked processed when the post succeeds). A visit of the page is exactly these
  decisions, thread after thread, and raises nothing: it makes at most one responder
  call for \<open>d\<close>, and as many reply posts as responder calls. A cycle that completes is
  exactly the visits of the entries of its watch list, in order, a page named twice
  being visited twice: the responder calls for \<open>d\<close> in the cycle are at most the
  entries of the watch list whose page carries \<open>d\<close>, and the reply posts are as many as
  the responder calls.
\<close>

theorem latest_comment_decides_each_visit:
  assumes "getAllCommentsForPage w pageId = Some es"
    and "(d, cs) \<in> set (groupByDiscussion (map comment es))"
  shows "cs = filter (\<lambda>c. discussion_id c = d) (map comment es) \<and> cs \<noteq> []
       \<and> latestComment cs \<in> set cs
       \<and> (\<forall>c \<in> set cs. created_time c \<le> created_time (latestComment cs))
       \<and> latestComment cs
            = last (filter (\<lambda>c. created_time c = created_time (latestComment cs)) cs)
       \<and> thread_step w config uid pageId quoteMap d cs ids
            = thread_step w config uid pageId quoteMap d [latestComment cs] ids
       \<and> thread_step w config uid pageId quoteMap d cs ids
            = (if comment_id (latestComment cs) \<in> set ids then Inr (ids, [])
               else if bot_authored uid (latestComment cs)
               then Inr (ids @ [comment_id (latestComment cs)], [])
               else if trim (extractTextFromComment (latestComment cs)) = []
               then Inr (ids @ [comment_id (latestComment cs)], [])
               else Inr (if replyToComment w d
                              (answer_text w config pageId quoteMap d (latestComment cs))
                         then ids @ [comment_id (latestComment cs)] else ids,
                         answer_events w config pageId quoteMap d (latestComment cs)))
       \<and> page_threads w config uid pageId es ids0
            = (fst (visit_page w config uid pageId es ids0),
               snd (visit_page w config uid pageId es ids0), None)
       \<and> responder_calls d (snd (visit_page w config uid pageId es ids0)) \<le> 1
       \<and> reply_posts d (snd (visit_page w config uid pageId es ids0))
            = responder_calls d (snd (visit_page w config uid pageId es ids0))
       \<and> (\<forall>now file file' evs.
            pollNotionComments w config uid now file = Some (Inr (file', evs)) \<longrightarrow>
            evs = snd (visit_pages w config uid (cycle_pages w config)
                         (processedComments (loadState file)))
            \<and> responder_calls d evs \<le> length (filter (carries w d) (cycle_pages w config))
            \<and> reply_posts d evs = responder_calls d evs)"
proof -
  let ?comments = "map comment es"
  have g: "grouped ?comments (groupByDiscussion ?comments)" by (rule groupByDiscussion_grouped)
  then have ne_all: "list_all (\<lambda>g. snd g \<noteq> []) (groupByDiscussion ?comments)"
    and content: "list_all (\<lambda>g. snd g = filter (\<lambda>c. discussion_id c = fst g) ?comments)
                    (groupByDiscussion ?comments)"
    and keys: "set (map fst (groupByDiscussion ?comments)) = set (map discussion_id ?comments)"
    by (simp_all add: grouped_def)
  from content assms(2) have 1: "cs = filter (\<lambda>c. discussion_id c = d) ?comments"
    by (auto simp: list_all_iff)
  from ne_all assms(2) have ne: "cs \<noteq> []" by (auto simp: list_all_iff)
  have 3: "latestComment cs \<in> set cs" using ne by (rule latestComment_mem)
  have 4: "\<forall>c \<in> set cs. created_time c \<le> created_time (latestComment cs)"
    by (simp add: latestComment_max)
  have 5: "latestComment cs
      = last (filter (\<lambda>c. created_time c = created_time (latestComment cs)) cs)"
    using ne by (rule latestComment_stable)
  note 6 = thread_step_latest_only[OF ne, of w config uid pageId quoteMap d ids]
  note 7 = thread_step_cases[OF ne, of w config uid pageId quoteMap d ids]
  note 8 = page_threads_visit[of w config uid pageId es ids0]
  have "d \<in> fst ` set (groupByDiscussion ?comments)" using assms(2) by force
  then have "d \<in> set (map (\<lambda>e. discussion_id (comment e)) es)"
    using keys by (simp add: comp_def)
  with visit_page_counts[of d w config uid pageId es ids0]
  have 9: "responder_calls d (snd (visit_page w config uid pageId es ids0)) \<le> 1" by simp
  have 10: "reply_posts d (snd (visit_page w config uid pageId es ids0))
      = responder_calls d (snd (visit_page w config uid pageId es ids0))"
    by (simp add: visit_page_def decide_threads_pairs)
  have 11: "\<forall>now file file' evs.
            pollNotionComments w config uid now file = Some (Inr (file', evs)) \<longrightarrow>
            evs = snd (visit_pages w config uid (cycle_pages w config)
                         (processedComments (loadState file)))
            \<and> responder_calls d evs \<le> length (filter (carries w d) (cycle_pages w config))
            \<and> reply_posts d evs = responder_calls d evs"
  proof (intro allI impI)
    fix now f f' evs
    assume p: "pollNotionComments w config uid now f = Some (Inr (f', evs))"
    note e = poll_visits[OF p]
    show "evs = snd (visit_pages w config uid (cycle_pages w config)
                         (processedComments (loadState f)))
            \<and> responder_calls d evs \<le> length (filter (carries w d) (cycle_pages w config))
            \<and> reply_posts d evs = responder_calls d evs"
      using visit_pages_counts[of d w config uid "cycle_pages w config" "processedComments (loadState f)"]
        visit_pages_pairs[of d w config uid "cycle_pages w config" "processedComments (loadState f)"]
      unfolding e[symmetric] using e by blast
  qed
  from 1 ne 3 4 5 6 7 8 9 10 11 show ?thesis by blast
qed

theorem latest_comment_decides_each_visit_witness:
  "getAllCommentsForPage thread_world (js ''P'') = Some (page_entries demo_comments)
   \<and> (js ''d1'', [mk_comment ''c1'' ''d1'' 1000 ''hi'' ''u1'',
                   mk_comment ''c3'' ''d1'' 2000 ''more'' ''u1'',
                   mk_comment ''c4'' ''d1'' 2000 ''tie'' ''u1''])
       \<in> set (groupByDiscussion (map comment (page_entries demo_comments)))
   \<and> latestComment [mk_comment ''c1'' ''d1'' 1000 ''hi'' ''u1'',
                     mk_comment ''c3'' ''d1'' 2000 ''more'' ''u1'',
                     mk_comment ''c4'' ''d1'' 2000 ''tie'' ''u1'']
       = mk_comment ''c4'' ''d1'' 2000 ''tie'' ''u1''
   \<and> thread_step thread_world demo_config None (js ''P'') Map.empty (js ''d1'')
        [mk_comment ''c1'' ''d1'' 1000 ''hi'' ''u1'',
         mk_comment ''c3'' ''d1'' 2000 ''more'' ''u1'',
         mk_comment ''c4'' ''d1'' 2000 ''tie'' ''u1''] []
       = Inr ([js ''c4''],
              [Responder (js ''d1'') (js ''tie'') None None, ReplyPost (js ''d1'') (js ''ok'') True])
   \<and> pollNotionComments thread_world demo_config None 7 None
       = Some (Inr (Some \<lparr>lastPollTime = 7,
                           processedComments = [js ''P'' \<mapsto> [js ''c4'', js ''c2'']]\<rparr>,
                    [Responder (js ''d1'') (js ''tie'') None None,
                     ReplyPost (js ''d1'') (js ''ok'') True]))
   \<and> snd (visit_pages thread_world demo_config None (cycle_pages thread_world demo_config)
             Map.empty)
       = [Responder (js ''d1'') (js ''tie'') None None, ReplyPost (js ''d1'') (js ''ok'') True]
   \<and> responder_calls (js ''d1'')
         [Responder (js ''d1'') (js ''tie'') None None, ReplyPost (js ''d1'') (js ''ok'') True]
       \<le> length (filter (carries thread_world (js ''d1'')) (cycle_pages thread_world demo_config))
   \<and> length (filter (carries thread_world (js ''d1'')) (cycle_pages thread_world demo_config)) = 1"
proof -
  let ?cs = "[mk_comment ''c1'' ''d1'' 1000 ''hi'' ''u1'',
              mk_comment ''c3'' ''d1'' 2000 ''more'' ''u1'',
              mk_comment ''c4'' ''d1'' 2000 ''tie'' ''u1'']"
  let ?c = "mk_comment ''c4'' ''d1'' 2000 ''tie'' ''u1''"
  let ?evs = "[Responder (js ''d1'') (js ''tie'') None None, ReplyPost (js ''d1'') (js ''ok'') True]"
  have mp: "map comment (page_entries demo_comments) = demo_comments"
    by (simp add: page_entries_def comp_def)
  have m: "(js ''d1'', ?cs) \<in> set (groupByDiscussion (map comment (page_entries demo_comments)))"
    by (simp add: mp demo_groups)
  have x: "extractTextFromComment ?c = js ''tie''" "comment_id ?c = js ''c4''"
    by (simp_all add: extractTextFromComment_def plain_texts_def mk_comment_def)
  have nb: "\<not> bot_authored None ?c" by (simp add: bot_authored_def truthy_def)
  have tr: "trim (js ''tie'') \<noteq> []" by (simp add: trim_def js_def is_ws_def)
  have t: "getPageTitle thread_world (js ''P'') = None"
    by (simp add: getPageTitle_def thread_world_def demo_world_def)
  have a: "answer_text thread_world demo_config (js ''P'') Map.empty (js ''d1'') ?c = js ''ok''"
    by (simp add: answer_text_def processCommentWithAgent_def callAI_def Let_def demo_config_def
      thread_world_def demo_world_def callChatCompletions_def or_default_def getEnv_def js_def)
  have r: "replyToComment thread_world (js ''d1'') (js ''ok'')"
    by (simp add: replyToComment_def thread_world_def demo_world_def)
  have cp: "cycle_pages thread_world demo_config = [js ''P'']"
    by (simp add: cycle_pages_def index_pages_def watched_pages_def demo_config_def truthy_def)
  have ca: "carries thread_world (js ''d1'') (js ''P'')"
    by (simp add: carries_def thread_world_entries page_entries_def demo_comments_def mk_comment_def)
  note inst = latest_comment_decides_each_visit[OF thread_world_entries m,
      of demo_config None Map.empty "[]" "[]"]
  note c2 = conjunct2
  from inst[THEN c2, THEN c2, THEN c2, THEN c2, THEN c2, THEN c2, THEN conjunct1]
  have s: "thread_step thread_world demo_config None (js ''P'') Map.empty (js ''d1'') ?cs []
       = Inr ([js ''c4''], ?evs)"
    by (simp add: demo_latest x nb tr t a r answer_events_def)
  note cyc = inst[THEN c2, THEN c2, THEN c2, THEN c2, THEN c2, THEN c2, THEN c2, THEN c2, THEN c2,
      THEN c2, rule_format, OF thread_world_poll]
  from cyc have e: "snd (visit_pages thread_world demo_config None
        (cycle_pages thread_world demo_config) Map.empty) = ?evs"
    by (simp add: loadState_def)
  from cyc have k: "responder_calls (js ''d1'') ?evs
       \<le> length (filter (carries thread_world (js ''d1'')) (cycle_pages thread_world demo_config))"
    by blast
  have l: "length (filter (carries thread_world (js ''d1'')) (cycle_pages thread_world demo_config)) = 1"
    by (simp add: cp ca)
  from thread_world_entries m demo_latest s thread_world_poll e k l show ?thesis by blast
qed

section \<open>The claim about link extraction\<close>

lemma match_trailing_hex32_short: "length s < 32 \<Longrightarrow> match_trailing_hex32 s = None"
  by (induction s) (simp_all add: hex32_pattern_def matches_prefix_hex_replicate)

lemma index_world_blocks:
  "getPageBlocks index_world (js ''I'')
     = Some [child_page_block (js ''P''),
             paragraph_block (js ''b2'') [link_run (js ''https://example.com/caf%E9'')]]"
  using getPageBlocks_single[of index_world "js ''I''"
      "single_page [child_page_block (js ''P''),
                    paragraph_block (js ''b2'') [link_run (js ''https://example.com/caf%E9'')]]"]
  by (simp add: index_world_def single_page_def truthy_def)

lemma bad_links:
  "extractPageLinks [child_page_block (js ''P''),
       paragraph_block (js ''b2'') [link_run (js ''https://example.com/caf%E9'')]] = Inl URIError"
proof -
  have d: "decodeURIComponent (js ''https://example.com/caf%E9'') = None"
    by (simp add: js_def is_hex_def hex_val_def lead_ones_def numeral_2_eq_2)
  have t: "js ''paragraph'' \<noteq> js ''child_page''" "js ''paragraph'' \<noteq> js ''child_database''"
    "js ''paragraph'' \<noteq> js ''link_to_page''" "js ''https://example.com/caf%E9'' \<noteq> []"
    by (simp_all add: js_def)
  show ?thesis
    by (simp add: d t extractPageLinks_def paragraph_block_def child_page_block_def link_run_def
        extractFromOptUrl_def extractFromUrl_def)
qed

lemma good_links:
  "extractPageLinks [child_page_block (js ''P''),
       paragraph_block (js ''b2'') [link_run (js ''https://example.com/caf'')]] = Inr [js ''P'']"
proof -
  have "37 \<notin> set (js ''https://example.com/caf'')" by (simp add: js_def)
  then have d: "decodeURIComponent (js ''https://example.com/caf'') = Some (js ''https://example.com/caf'')"
    by (rule decode_no_percent)
  have t: "js ''paragraph'' \<noteq> js ''child_page''" "js ''paragraph'' \<noteq> js ''child_database''"
    "js ''paragraph'' \<noteq> js ''link_to_page''" "js ''https://example.com/caf'' \<noteq> []"
    by (simp_all add: js_def)
  have "length (js ''https://example.com/caf'') < 32" by (simp add: js_def)
  then have m1: "match_trailing_hex32 (js ''https://example.com/caf'') = None"
    by (rule match_trailing_hex32_short)
  have "count_list (js ''https://example.com/caf'') 45 = 0" by (simp add: js_def)
  with match_uuid_dashes[of "js ''https://example.com/caf''"]
  have m2: "match_uuid (js ''https://example.com/caf'') = None"
    by (cases "match_uuid (js ''https://example.com/caf'')") auto
  note m = m1 m2
  show ?thesis
    by (simp add: d t m extractPageLinks_def paragraph_block_def child_page_block_def link_run_def
        extractFromOptUrl_def extractFromUrl_def push_unique_def)
qed

lemma index_poll:
  "pollNotionComments index_world index_config None 7 None = Some (Inl URIError)"
  by (simp add: pollNotionComments_def index_config_def demo_config_def truthy_def or_default_def
      getWatchedPagesFromIndex_def index_world_blocks bad_links)
     (simp add: js_def)

text \<open>
  Claim C5. Link extraction is to return a sequence for every block sequence, and a
  hyperlink that holds no identifier is to contribute nothing. The code does not where
  a scanned hyperlink holds a percent-escape that \<open>decodeURIComponent\<close> rejects, such
  as the escape \<open>%E9\<close>, which is not UTF-8, or a bare \<open>%\<close>: \<open>decodeURIComponent\<close> throws
  \<open>URIError\<close>, \<open>extractFromUrl\<close> calls it unguarded, and \<open>extractPageLinks\<close> returns no
  sequence, where the same blocks with the hyperlink \<open>https://example.com/caf\<close> yield
  the child page. The error leaves \<open>getWatchedPagesFromIndex\<close> and the poll cycle:
  with such a link on the index page the cycle throws before it visits any page, the
  configured watch list included.
\<close>

theorem malformed_url_aborts_cycle:
  "decodeURIComponent (js ''https://example.com/caf%E9'') = None
   \<and> decodeURIComponent (js ''https://example.com/100%'') = None
   \<and> extractPageLinks
        [child_page_block (js ''P''),
         paragraph_block (js ''b2'') [link_run (js ''https://example.com/caf%E9'')]]
       = Inl URIError
   \<and> extractPageLinks
        [child_page_block (js ''P''),
         paragraph_block (js ''b2'') [link_run (js ''https://example.com/caf'')]]
       = Inr [js ''P'']
   \<and> getPageBlocks index_world (js ''I'')
       = Some [child_page_block (js ''P''),
               paragraph_block (js ''b2'') [link_run (js ''https://example.com/caf%E9'')]]
   \<and> pollNotionComments index_world index_config None 7 None = Some (Inl URIError)"
proof -
  have d: "decodeURIComponent (js ''https://example.com/caf%E9'') = None"
    "decodeURIComponent (js ''https://example.com/100%'') = None"
    by (simp_all add: js_def is_hex_def hex_val_def lead_ones_def numeral_2_eq_2)
  from d bad_links good_links index_world_blocks index_poll show ?thesis by blast
qed

lemma hex_count_dash: "list_all is_hex h \<Longrightarrow> count_list h 45 = 0"
  by (induction h) (auto simp: is_hex_def)

lemma hex_no_percent: "list_all is_hex h \<Longrightarrow> 37 \<notin> set h"
  by (auto simp: list_all_iff is_hex_def)

lemma title_url:
  assumes "length h = 32" "list_all is_hex h"
  shows "url_ids (js ''https://host/Title-'' @ h) = [format_uuid h]"
proof -
  let ?u = "js ''https://host/Title-'' @ h"
  have "37 \<notin> set ?u" using hex_no_percent[OF assms(2)] by (simp add: js_def)
  then have d: "decodeURIComponent ?u = Some ?u" by (rule decode_no_percent)
  have m: "match_trailing_hex32 ?u = Some h" using assms by (rule match_trailing_hex32_append)
  have "count_list ?u 45 = 1" using hex_count_dash[OF assms(2)] by (simp add: js_def)
  with match_uuid_dashes[of ?u] have u: "match_uuid ?u = None"
    by (cases "match_uuid ?u") auto
  show ?thesis by (simp add: url_ids_def d m u)
qed

text \<open>
  Where every scanned hyperlink decodes, link extraction is as the specification says:
  it returns the identifiers the blocks contribute, in order, each kept at
  its first occurrence only: a child-page block contributes its own identifier, a
  link-to-page block the page identifier it references, a child-database block nothing,
  and any other block, for each hyperlink of its rich-text runs, the trailing 32
  hexadecimal digits of the decoded URL in the hyphenated 8-4-4-4-12 form and then the
  first UUID-shaped identifier in the decoded URL, where present. In particular an index
  page with a child-page block \<open>B1\<close>, a link-to-page block referencing \<open>P2\<close> and a
  paragraph whose hyperlink is \<open>https://host/Title-\<close> followed by 32 hexadecimal digits
  yields exactly \<open>B1\<close>, \<open>P2\<close> and the hyphenated form of the digits, each once.
\<close>

lemma link_extraction:
  assumes "urls_decode bs"
  shows "extractPageLinks bs = Inr (dedup_first (concat (map block_links bs)))
       \<and> distinct (dedup_first (concat (map block_links bs)))
       \<and> set (dedup_first (concat (map block_links bs))) = set (concat (map block_links bs))
       \<and> (\<forall>B1 i2 P2 i3 h.
            length h = 32 \<and> list_all is_hex h \<and> P2 \<noteq> [] \<longrightarrow>
            extractPageLinks
              [child_page_block B1, link_to_page_block i2 P2,
               paragraph_block i3 [link_run (js ''https://host/Title-'' @ h)]]
              = Inr (dedup_first [B1, P2, format_uuid h])
            \<and> set (dedup_first [B1, P2, format_uuid h]) = {B1, P2, format_uuid h}
            \<and> distinct (dedup_first [B1, P2, format_uuid h]))"
proof -
  have ex: "extractPageLinks
              [child_page_block B1, link_to_page_block i2 P2,
               paragraph_block i3 [link_run (js ''https://host/Title-'' @ h)]]
              = Inr (dedup_first [B1, P2, format_uuid h])"
    if h: "length h = 32" "list_all is_hex h" and p: "P2 \<noteq> []" for B1 i2 P2 i3 h
  proof -
    let ?u = "js ''https://host/Title-'' @ h"
    let ?bs = "[child_page_block B1, link_to_page_block i2 P2, paragraph_block i3 [link_run ?u]]"
    have t: "js ''paragraph'' \<noteq> js ''child_page''" "js ''paragraph'' \<noteq> js ''child_database''"
      "js ''paragraph'' \<noteq> js ''link_to_page''" "js ''link_to_page'' \<noteq> js ''child_page''"
      "js ''link_to_page'' \<noteq> js ''child_database''" "?u \<noteq> []"
      by (simp_all add: js_def)
    have "37 \<notin> set ?u" using hex_no_percent[OF h(2)] by (simp add: js_def)
    then have d: "decodeURIComponent ?u = Some ?u" by (rule decode_no_percent)
    have urls: "block_urls (child_page_block B1) = []" "block_urls (link_to_page_block i2 P2) = []"
      "block_urls (paragraph_block i3 [link_run ?u]) = [?u, ?u]"
      using t by (simp_all add: block_urls_def child_page_block_def link_to_page_block_def paragraph_block_def
          link_run_def run_urls_def opt_url_def)
    have dec: "urls_decode ?bs" by (simp add: urls_decode_def urls d)
    have links: "block_links (child_page_block B1) = [B1]" "block_links (link_to_page_block i2 P2) = [P2]"
      "block_links (paragraph_block i3 [link_run ?u]) = [format_uuid h, format_uuid h]"
      using t p title_url[OF h]
      by (simp_all add: block_links_def urls)
         (simp_all add: child_page_block_def link_to_page_block_def paragraph_block_def opt_url_def)
    show ?thesis
      by (simp add: extractPageLinks_spec[OF dec] links)
  qed
  have s: "set (dedup_first xs) = set xs" "distinct (dedup_first xs)" for xs :: "jsstring list"
    by (rule dedup_first_set, rule dedup_first_distinct)
  show ?thesis
    using extractPageLinks_spec[OF assms] ex
    by (simp only: s simp_thms list.set insert_commute) blast
qed

lemma link_extraction_example:
  "urls_decode
     [child_page_block (js ''B1''), link_to_page_block (js ''b2'') (js ''P2''),
      paragraph_block (js ''b3'')
        [link_run (js ''https://host/Title-'' @ js ''abc123def456789012345678abcdef01'')]]
   \<and> extractPageLinks
     [child_page_block (js ''B1''), link_to_page_block (js ''b2'') (js ''P2''),
      paragraph_block (js ''b3'')
        [link_run (js ''https://host/Title-'' @ js ''abc123def456789012345678abcdef01'')]]
     = Inr [js ''B1'', js ''P2'', js ''abc123de-f456-7890-1234-5678abcdef01'']"
proof -
  let ?h = "js ''abc123def456789012345678abcdef01''"
  let ?u = "js ''https://host/Title-'' @ ?h"
  let ?bs = "[child_page_block (js ''B1''), link_to_page_block (js ''b2'') (js ''P2''),
      paragraph_block (js ''b3'') [link_run ?u]]"
  have h: "length ?h = 32" "list_all is_hex ?h" "js ''P2'' \<noteq> []"
    by (simp_all add: js_def is_hex_def)
  have "37 \<notin> set ?u" by (simp add: js_def)
  then have d: "decodeURIComponent ?u = Some ?u" by (rule decode_no_percent)
  have t: "js ''paragraph'' \<noteq> js ''child_page''" "js ''paragraph'' \<noteq> js ''child_database''"
    "js ''paragraph'' \<noteq> js ''link_to_page''" "js ''link_to_page'' \<noteq> js ''child_page''"
    "js ''link_to_page'' \<noteq> js ''child_database''" "?u \<noteq> []"
    by (simp_all add: js_def)
  have dec: "urls_decode ?bs"
    using t
    by (simp add: urls_decode_def block_urls_def child_page_block_def link_to_page_block_def
        paragraph_block_def link_run_def run_urls_def opt_url_def d)
  note inst = link_extraction[OF dec, THEN conjunct2, THEN conjunct2, THEN conjunct2, rule_format,
      where h = ?h and ?P2.0 = "js ''P2''" and ?B1.0 = "js ''B1''" and ?i2.0 = "js ''b2''"
        and ?i3.0 = "js ''b3''"]
  have f: "format_uuid ?h = js ''abc123de-f456-7890-1234-5678abcdef01''"
    by (simp add: format_uuid_def js_def)
  have "dedup_first [js ''B1'', js ''P2'', js ''abc123de-f456-7890-1234-5678abcdef01'']
      = [js ''B1'', js ''P2'', js ''abc123de-f456-7890-1234-5678abcdef01'']"
    by (simp add: js_def)
  with inst h f dec show ?thesis by simp
qed

end
